theory Spec2Isabelle
  imports Complex_Main "HOL-Library.Word" "HOL-Library.Multiset"
begin

unbundle bit_operations_syntax

section \<open>Dark-current subtraction (stcal/dark_current/dark_sub.py)\<close>

text \<open>
  The development embeds the functions of \<^verbatim>\<open>dark_sub.py\<close>:
  \<^verbatim>\<open>do_correction_data\<close>, \<^verbatim>\<open>average_dark_frames_3d\<close>,
  \<^verbatim>\<open>average_dark_frames_4d\<close>, \<^verbatim>\<open>subtract_dark\<close> and
  \<^verbatim>\<open>extrapolate_dark\<close>, on top of a small model of the numpy operations they call.
\<close>

subsection \<open>Errors\<close>

text \<open>
  The exceptions that the numpy and Python operations used by the module raise. The module
  defines no exception class of its own and has no \<^verbatim>\<open>raise\<close> statement.
\<close>

datatype error = IndexError | ValueError | ZeroDivisionError | AxisError

definition bnd :: "error + 'a \<Rightarrow> ('a \<Rightarrow> error + 'b) \<Rightarrow> error + 'b" where
  "bnd m f = (case m of Inl e \<Rightarrow> Inl e | Inr x \<Rightarrow> f x)"

subsection \<open>Pixel values\<close>

text \<open>
  A floating-point pixel is a real number or NaN. NaN is absorbing for the arithmetic, as in
  IEEE 754. Rounding, overflow and the infinities are outside the model.
\<close>

datatype fval = NaN | Fin real

fun fadd :: "fval \<Rightarrow> fval \<Rightarrow> fval" where
  "fadd (Fin a) (Fin b) = Fin (a + b)"
| "fadd _ _ = NaN"

fun fsub :: "fval \<Rightarrow> fval \<Rightarrow> fval" where
  "fsub (Fin a) (Fin b) = Fin (a - b)"
| "fsub _ _ = NaN"

fun fmul :: "fval \<Rightarrow> fval \<Rightarrow> fval" where
  "fmul (Fin a) (Fin b) = Fin (a * b)"
| "fmul _ _ = NaN"

definition isnan :: "fval \<Rightarrow> bool" where
  "isnan x = (x = NaN)"

text \<open>The sum of a sequence of pixels, and numpy's mean: the sum divided by the count,
  which is NaN (0/0) for an empty sequence.\<close>

definition fsum :: "fval list \<Rightarrow> fval" where
  "fsum xs = foldl fadd (Fin 0) xs"

definition fmean :: "fval list \<Rightarrow> fval" where
  "fmean xs = (if xs = [] then NaN
               else (case fsum xs of NaN \<Rightarrow> NaN | Fin s \<Rightarrow> Fin (s / real (length xs))))"

subsection \<open>Arrays\<close>

text \<open>
  A numpy array is its shape and its elements, read by a full index (one position per
  axis). Only the elements at indices inside the shape are part of the array.
\<close>

record 'a ndarray =
  shape :: "nat list"
  elem :: "nat list \<Rightarrow> 'a"

definition ndim :: "'a ndarray \<Rightarrow> nat" where
  "ndim a = length (shape a)"

definition in_range :: "nat list \<Rightarrow> nat list \<Rightarrow> bool" where
  "in_range sh idx = list_all2 (\<lambda>i n. i < n) idx sh"

text \<open>Two arrays are equal as numpy arrays when they have the same shape and the same
  element at every index inside it.\<close>

definition arr_eq :: "'a ndarray \<Rightarrow> 'a ndarray \<Rightarrow> bool" where
  "arr_eq a b = (shape a = shape b \<and> (\<forall>idx. in_range (shape a) idx \<longrightarrow> elem a idx = elem b idx))"

text \<open>\<^verbatim>\<open>a.shape[k]\<close>: indexing the shape tuple.\<close>

definition shape_at :: "'a ndarray \<Rightarrow> nat \<Rightarrow> error + nat" where
  "shape_at a k = (if k < length (shape a) then Inr (shape a ! k) else Inl IndexError)"

text \<open>An integer index along an axis of length \<open>n\<close>: negative indices count from the end.\<close>

definition py_index :: "nat \<Rightarrow> int \<Rightarrow> error + nat" where
  "py_index n i =
     (let j = (if i < 0 then int n + i else i)
      in if 0 \<le> j \<and> j < int n then Inr (nat j) else Inl IndexError)"

text \<open>\<^verbatim>\<open>a[i]\<close>\<close>

definition getitem :: "'a ndarray \<Rightarrow> int \<Rightarrow> error + 'a ndarray" where
  "getitem a i =
     (case shape a of
        [] \<Rightarrow> Inl IndexError
      | n # sh \<Rightarrow> bnd (py_index n i) (\<lambda>j. Inr \<lparr>shape = sh, elem = (\<lambda>idx. elem a (j # idx))\<rparr>))"

text \<open>\<^verbatim>\<open>a[i, j]\<close>\<close>

definition getitem2 :: "'a ndarray \<Rightarrow> int \<Rightarrow> int \<Rightarrow> error + 'a ndarray" where
  "getitem2 a i j = bnd (getitem a i) (\<lambda>b. getitem b j)"

text \<open>\<^verbatim>\<open>a[i, :, :]\<close> and \<^verbatim>\<open>a[i, j, :, :]\<close>: the explicit slices need their axes
  to exist.\<close>

definition getitem_s2 :: "'a ndarray \<Rightarrow> int \<Rightarrow> error + 'a ndarray" where
  "getitem_s2 a i = (if ndim a < 3 then Inl IndexError else getitem a i)"

definition getitem2_s2 :: "'a ndarray \<Rightarrow> int \<Rightarrow> int \<Rightarrow> error + 'a ndarray" where
  "getitem2_s2 a i j = (if ndim a < 4 then Inl IndexError else getitem2 a i j)"

text \<open>\<^verbatim>\<open>a[start:stop]\<close>: a slice never raises on bounds, it is clipped to the axis.\<close>

definition slice_bound :: "nat \<Rightarrow> int \<Rightarrow> nat" where
  "slice_bound n k = (if k < 0 then nat (max 0 (int n + k)) else min (nat k) n)"

definition getslice :: "'a ndarray \<Rightarrow> int \<Rightarrow> int \<Rightarrow> error + 'a ndarray" where
  "getslice a start stop =
     (case shape a of
        [] \<Rightarrow> Inl IndexError
      | n # sh \<Rightarrow>
          (let lo = slice_bound n start; hi = slice_bound n stop
           in Inr \<lparr>shape = (hi - lo) # sh,
                   elem = (\<lambda>idx. case idx of [] \<Rightarrow> elem a [] | k # r \<Rightarrow> elem a ((lo + k) # r))\<rparr>))"

text \<open>\<^verbatim>\<open>a.mean(axis=0)\<close>\<close>

definition mean0 :: "fval ndarray \<Rightarrow> error + fval ndarray" where
  "mean0 a =
     (case shape a of
        [] \<Rightarrow> Inl AxisError
      | n # sh \<Rightarrow> Inr \<lparr>shape = sh, elem = (\<lambda>idx. fmean (map (\<lambda>k. elem a (k # idx)) [0..<n]))\<rparr>)"

text \<open>
  Broadcasting. Shapes are aligned at their last axis; two aligned lengths are compatible
  when they are equal or one of them is 1. \<open>bshape_rev\<close> works on the reversed shapes.
  An operand of shape \<open>s\<close> is read, at an index of the result, at the trailing positions of
  that index, with 0 on each axis of length 1.
\<close>

fun bshape_rev :: "nat list \<Rightarrow> nat list \<Rightarrow> nat list option" where
  "bshape_rev [] ys = Some ys"
| "bshape_rev (x # xs) [] = Some (x # xs)"
| "bshape_rev (x # xs) (y # ys) =
     (if x = y \<or> y = 1 then map_option ((#) x) (bshape_rev xs ys)
      else if x = 1 then map_option ((#) y) (bshape_rev xs ys)
      else None)"

definition broadcast_shapes :: "nat list \<Rightarrow> nat list \<Rightarrow> nat list option" where
  "broadcast_shapes s t = map_option rev (bshape_rev (rev s) (rev t))"

definition bidx :: "nat list \<Rightarrow> nat list \<Rightarrow> nat list" where
  "bidx s idx = map2 (\<lambda>d i. if d = 1 then 0 else i) s (drop (length idx - length s) idx)"

text \<open>An elementwise binary operation \<^verbatim>\<open>op(a, b)\<close>, and its in-place form
  \<^verbatim>\<open>a op= b\<close>, whose result must have the shape of \<open>a\<close>.\<close>

definition binop :: "('a \<Rightarrow> 'a \<Rightarrow> 'a) \<Rightarrow> 'a ndarray \<Rightarrow> 'a ndarray \<Rightarrow> error + 'a ndarray" where
  "binop f a b =
     (case broadcast_shapes (shape a) (shape b) of
        None \<Rightarrow> Inl ValueError
      | Some sh \<Rightarrow>
          Inr \<lparr>shape = sh,
               elem = (\<lambda>idx. f (elem a (bidx (shape a) idx)) (elem b (bidx (shape b) idx)))\<rparr>)"

definition iop :: "('a \<Rightarrow> 'a \<Rightarrow> 'a) \<Rightarrow> 'a ndarray \<Rightarrow> 'a ndarray \<Rightarrow> error + 'a ndarray" where
  "iop f a b = bnd (binop f a b) (\<lambda>r. if shape r = shape a then Inr r else Inl ValueError)"

text \<open>\<^verbatim>\<open>np.broadcast_to(v, sh)\<close>\<close>

definition broadcast_to :: "'a ndarray \<Rightarrow> nat list \<Rightarrow> error + 'a ndarray" where
  "broadcast_to v sh =
     (if broadcast_shapes (shape v) sh = Some sh
      then Inr \<lparr>shape = sh, elem = (\<lambda>idx. elem v (bidx (shape v) idx))\<rparr>
      else Inl ValueError)"

text \<open>The value of an assignment \<^verbatim>\<open>a[...] = v\<close> is broadcast to the shape of the
  target; leading axes of length 1 that the target does not have are dropped first.\<close>

fun strip_ones :: "nat \<Rightarrow> nat list \<Rightarrow> nat list" where
  "strip_ones k [] = []"
| "strip_ones k (d # ds) = (if k < length (d # ds) \<and> d = 1 then strip_ones k ds else d # ds)"

definition assign_cast :: "'a ndarray \<Rightarrow> nat list \<Rightarrow> error + 'a ndarray" where
  "assign_cast v sh =
     (let s = strip_ones (length sh) (shape v);
          v' = \<lparr>shape = s, elem = (\<lambda>idx. elem v (replicate (length (shape v) - length s) 0 @ idx))\<rparr>
      in broadcast_to v' sh)"

text \<open>\<^verbatim>\<open>a[i] = v\<close> and \<^verbatim>\<open>a[i, j] = v\<close>\<close>

definition setitem :: "'a ndarray \<Rightarrow> int \<Rightarrow> 'a ndarray \<Rightarrow> error + 'a ndarray" where
  "setitem a i v =
     (case shape a of
        [] \<Rightarrow> Inl IndexError
      | n # sh \<Rightarrow>
          bnd (py_index n i) (\<lambda>j.
          bnd (assign_cast v sh) (\<lambda>w.
          Inr (a\<lparr>elem := (\<lambda>idx. case idx of
                             [] \<Rightarrow> elem a []
                           | k # r \<Rightarrow> if k = j then elem w r else elem a idx)\<rparr>))))"

definition setitem2 :: "'a ndarray \<Rightarrow> int \<Rightarrow> int \<Rightarrow> 'a ndarray \<Rightarrow> error + 'a ndarray" where
  "setitem2 a i j v =
     bnd (getitem a i) (\<lambda>b.
     bnd (setitem b j v) (\<lambda>b'.
     setitem a i b'))"

text \<open>\<^verbatim>\<open>np.concatenate((a, b))\<close> along axis 0\<close>

definition concatenate :: "'a ndarray \<Rightarrow> 'a ndarray \<Rightarrow> error + 'a ndarray" where
  "concatenate a b =
     (case (shape a, shape b) of
        (n # sa, m # sb) \<Rightarrow>
          if sa = sb
          then Inr \<lparr>shape = (n + m) # sa,
                    elem = (\<lambda>idx. case idx of
                                  [] \<Rightarrow> elem a []
                                | k # r \<Rightarrow> if k < n then elem a (k # r) else elem b ((k - n) # r))\<rparr>
          else Inl ValueError
      | _ \<Rightarrow> Inl ValueError)"

text \<open>\<^verbatim>\<open>np.full(sh, v)\<close>\<close>

definition full :: "nat list \<Rightarrow> 'a \<Rightarrow> 'a ndarray" where
  "full sh v = \<lparr>shape = sh, elem = (\<lambda>idx. v)\<rparr>"

subsection \<open>The data model\<close>

text \<open>
  \<^verbatim>\<open>ScienceData\<close> and \<^verbatim>\<open>DarkData\<close> (module \<^verbatim>\<open>dark_class\<close>) with the
  attributes that \<^verbatim>\<open>dark_sub.py\<close> reads and writes. Data quality flags are unsigned
  32-bit words. The cadence attributes are Python integers.
\<close>

record exposure =
  data :: "fval ndarray"
  exp_nframes :: int
  exp_groupgap :: int

record science = exposure +
  pixeldq :: "32 word ndarray"
  exp_intstart :: "int option"
  cal_step :: "string option"

record dark = exposure +
  groupdq :: "32 word ndarray"
  exp_ngroups :: int
  save :: bool
  output_name :: "string option"

subsection \<open>\<^verbatim>\<open>subtract_dark\<close>\<close>

text \<open>The collapse of the dark DQ planes, lines 356 to 358: the loop over
  \<^verbatim>\<open>range(1, dark_nints)\<close>.\<close>

fun collapse_dq :: "32 word ndarray \<Rightarrow> 32 word ndarray \<Rightarrow> nat list \<Rightarrow> error + 32 word ndarray" where
  "collapse_dq gdq darkdq [] = Inr darkdq"
| "collapse_dq gdq darkdq (i # is) =
     bnd (getitem2_s2 gdq (int i) 0) (\<lambda>p.
     bnd (binop (OR) darkdq p) (\<lambda>darkdq'.
     collapse_dq gdq darkdq' is))"

text \<open>The inner loop, lines 384 to 386: \<^verbatim>\<open>output.data[i, j] -= dark_sci[j]\<close>.\<close>

fun sub_groups :: "fval ndarray \<Rightarrow> nat \<Rightarrow> fval ndarray \<Rightarrow> nat list \<Rightarrow> error + fval ndarray" where
  "sub_groups out i dark_sci [] = Inr out"
| "sub_groups out i dark_sci (j # js) =
     bnd (getitem2 out (int i) (int j)) (\<lambda>t.
     bnd (getitem dark_sci (int j)) (\<lambda>d.
     bnd (iop fsub t d) (\<lambda>r.
     bnd (setitem2 out (int i) (int j) r) (\<lambda>out'.
     sub_groups out' i dark_sci js))))"

text \<open>The selection of the dark integration, line 378 and line 381.\<close>

definition select_dark :: "fval ndarray \<Rightarrow> nat \<Rightarrow> int \<Rightarrow> nat \<Rightarrow> error + fval ndarray" where
  "select_dark dd dark_nints int_start i =
     (if ndim dd = 4
      then (if i < dark_nints \<and> int_start = 1 then getitem dd (int i) else getitem dd (- 1))
      else Inr dd)"

text \<open>The outer loop, lines 367 to 386.\<close>

fun sub_ints :: "fval ndarray \<Rightarrow> fval ndarray \<Rightarrow> nat \<Rightarrow> int \<Rightarrow> nat \<Rightarrow> nat list \<Rightarrow> error + fval ndarray" where
  "sub_ints out dd dark_nints int_start ngroups [] = Inr out"
| "sub_ints out dd dark_nints int_start ngroups (i # is) =
     bnd (select_dark dd dark_nints int_start i) (\<lambda>dark_sci.
     bnd (sub_groups out i dark_sci [0..<ngroups]) (\<lambda>out'.
     sub_ints out' dd dark_nints int_start ngroups is))"

text \<open>
  \<^verbatim>\<open>subtract_dark(science_data, dark_data)\<close>. The arguments of the
  \<^verbatim>\<open>log.debug\<close> call are evaluated, so the science array needs four axes. The output
  starts as a deep copy of the science object.
\<close>

definition subtract_dark :: "science \<Rightarrow> dark \<Rightarrow> error + science" where
  "subtract_dark science_data dark_data =
     (let int_start = (case exp_intstart science_data of None \<Rightarrow> 1 | Some s \<Rightarrow> s);
          dark_nints = (if ndim (data dark_data) = 4 then hd (shape (data dark_data)) else 1)
      in
      bnd (shape_at (data science_data) 0) (\<lambda>nints.
      bnd (shape_at (data science_data) 1) (\<lambda>ngroups.
      bnd (shape_at (data science_data) 2) (\<lambda>_.
      bnd (shape_at (data science_data) 3) (\<lambda>_.
      bnd (if ndim (data dark_data) = 4
           then bnd (getitem2_s2 (groupdq dark_data) 0 0) (\<lambda>p.
                collapse_dq (groupdq dark_data) p [1..<dark_nints])
           else Inr (groupdq dark_data)) (\<lambda>darkdq.
      bnd (binop (OR) (pixeldq science_data) darkdq) (\<lambda>pdq.
      bnd (sub_ints (data science_data) (data dark_data) dark_nints int_start ngroups [0..<nints])
        (\<lambda>odata.
      Inr (science_data\<lparr>data := odata, pixeldq := pdq\<rparr>)))))))))"

subsection \<open>\<^verbatim>\<open>extrapolate_dark\<close>\<close>

text \<open>\<^verbatim>\<open>np.arange(1, ngroups + 1).reshape(-1, 1, 1)\<close>, as the floating-point factors
  of the product with the rate.\<close>

definition arange1 :: "int \<Rightarrow> fval ndarray" where
  "arange1 ngroups =
     \<lparr>shape = [nat ngroups, 1, 1],
      elem = (\<lambda>idx. case idx of [] \<Rightarrow> Fin 1 | k # r \<Rightarrow> Fin (real k + 1))\<rparr>"

text \<open>The inner function \<^verbatim>\<open>_extrapolate_int(arr, ngroups)\<close>, lines 406 to 412.
  A negative \<^verbatim>\<open>ngroups\<close> is refused by \<^verbatim>\<open>np.broadcast_to\<close>.\<close>

definition extrapolate_int :: "fval ndarray \<Rightarrow> int \<Rightarrow> error + fval ndarray" where
  "extrapolate_int arr ngroups =
     bnd (getitem_s2 arr (- 1)) (\<lambda>last_grp.
     bnd (getitem_s2 arr (- 2)) (\<lambda>prev_grp.
     bnd (binop fsub last_grp prev_grp) (\<lambda>rate_arr.
     bnd (if ngroups < 0 then Inl ValueError
          else broadcast_to (arange1 ngroups) (nat ngroups # shape rate_arr)) (\<lambda>ks.
     bnd (binop fmul ks rate_arr) (\<lambda>scaled.
     bnd (getitem arr (- 1)) (\<lambda>last'.
     bnd (binop fadd scaled last') (\<lambda>new_groups.
     concatenate arr new_groups)))))))"

text \<open>The loop over the integrations of a 4-D dark, lines 418 and 419.\<close>

fun extrapolate_ints :: "fval ndarray \<Rightarrow> fval ndarray \<Rightarrow> int \<Rightarrow> nat list \<Rightarrow> error + fval ndarray" where
  "extrapolate_ints new tmp_dark ngroups [] = Inr new"
| "extrapolate_ints new tmp_dark ngroups (i # is) =
     bnd (getitem tmp_dark (int i)) (\<lambda>arr.
     bnd (extrapolate_int arr ngroups) (\<lambda>ext.
     bnd (setitem new (int i) ext) (\<lambda>new'.
     extrapolate_ints new' tmp_dark ngroups is)))"

text \<open>
  \<^verbatim>\<open>extrapolate_dark(dark_data, ngroups)\<close> modifies the dark object in place; the
  model returns the modified object. \<^verbatim>\<open>np.full\<close> refuses a negative length.
\<close>

definition extrapolate_dark :: "dark \<Rightarrow> int \<Rightarrow> error + dark" where
  "extrapolate_dark dark_data ngroups =
     bnd (case shape (data dark_data) of
            [nints, init_groups, nx, ny] \<Rightarrow>
              if int init_groups + ngroups < 0 then Inl ValueError
              else extrapolate_ints
                     (full [nints, nat (int init_groups + ngroups), nx, ny] NaN)
                     (data dark_data) ngroups [0..<nints]
          | _ \<Rightarrow> extrapolate_int (data dark_data) ngroups) (\<lambda>d.
     Inr (dark_data\<lparr>data := d, exp_ngroups := exp_ngroups dark_data + ngroups\<rparr>))"

subsection \<open>The averaged dark\<close>

text \<open>
  Modelled from the spec: the constructor \<^verbatim>\<open>dark_class.DarkData(dims)\<close> is not part
  of the sources. The averagers need "a new dark cube" of the requested dimensions, so the
  constructor is taken to allocate a data array and a DQ array of shape \<open>dims\<close>, to refuse a
  negative length as numpy's allocators do, and to leave the object unmarked for saving. What
  a freshly allocated pixel holds is the parameter \<open>fill\<close>. The cadence attributes are
  placeholders: both averagers overwrite them before they return.
\<close>

definition DarkData :: "fval \<Rightarrow> int list \<Rightarrow> error + dark" where
  "DarkData fill dims =
     (if \<exists>d \<in> set dims. d < 0 then Inl ValueError
      else Inr \<lparr>data = full (map nat dims) fill, exp_nframes = 0, exp_groupgap = 0,
                groupdq = full (map nat dims) 0, exp_ngroups = 0,
                save = False, output_name = None\<rparr>)"

text \<open>The group loop of \<^verbatim>\<open>average_dark_frames_3d\<close>, lines 210 to 226; \<open>start\<close> is
  the loop-carried variable.\<close>

fun average_groups_3d ::
  "fval ndarray \<Rightarrow> fval ndarray \<Rightarrow> int \<Rightarrow> int \<Rightarrow> int \<Rightarrow> nat list \<Rightarrow> error + fval ndarray" where
  "average_groups_3d avg src nframes groupgap start [] = Inr avg"
| "average_groups_3d avg src nframes groupgap start (grp # gs) =
     (let stop = start + nframes in
      bnd (if nframes = 1 then getitem src start
           else bnd (getslice src start stop) mean0) (\<lambda>v.
      bnd (setitem avg (int grp) v) (\<lambda>avg'.
      average_groups_3d avg' src nframes groupgap (stop + groupgap) gs)))"

definition average_dark_frames_3d :: "fval \<Rightarrow> dark \<Rightarrow> int \<Rightarrow> int \<Rightarrow> int \<Rightarrow> error + dark" where
  "average_dark_frames_3d fill dark_data ngroups nframes groupgap =
     bnd (shape_at (data dark_data) 1) (\<lambda>dny.
     bnd (shape_at (data dark_data) 2) (\<lambda>dnx.
     bnd (DarkData fill [ngroups, int dny, int dnx]) (\<lambda>avg_dark.
     bnd (average_groups_3d (data avg_dark) (data dark_data) nframes groupgap 0
            [0..<nat ngroups]) (\<lambda>d.
     Inr (avg_dark\<lparr>data := d, groupdq := groupdq dark_data,
                    exp_nframes := nframes, exp_ngroups := ngroups,
                    exp_groupgap := groupgap\<rparr>)))))"

text \<open>The group loop and the integration loop of \<^verbatim>\<open>average_dark_frames_4d\<close>,
  lines 289 to 306.\<close>

fun average_groups_4d ::
  "fval ndarray \<Rightarrow> fval ndarray \<Rightarrow> nat \<Rightarrow> int \<Rightarrow> int \<Rightarrow> int \<Rightarrow> nat list \<Rightarrow> error + fval ndarray" where
  "average_groups_4d avg src it nframes groupgap start [] = Inr avg"
| "average_groups_4d avg src it nframes groupgap start (grp # gs) =
     (let stop = start + nframes in
      bnd (if nframes = 1 then getitem2 src (int it) start
           else bnd (bnd (getitem src (int it)) (\<lambda>cube. getslice cube start stop)) mean0) (\<lambda>v.
      bnd (setitem2 avg (int it) (int grp) v) (\<lambda>avg'.
      average_groups_4d avg' src it nframes groupgap (stop + groupgap) gs)))"

fun average_ints_4d ::
  "fval ndarray \<Rightarrow> fval ndarray \<Rightarrow> int \<Rightarrow> int \<Rightarrow> int \<Rightarrow> nat list \<Rightarrow> error + fval ndarray" where
  "average_ints_4d avg src ngroups nframes groupgap [] = Inr avg"
| "average_ints_4d avg src ngroups nframes groupgap (it # its) =
     bnd (average_groups_4d avg src it nframes groupgap 0 [0..<nat ngroups]) (\<lambda>avg'.
     average_ints_4d avg' src ngroups nframes groupgap its)"

definition average_dark_frames_4d ::
  "fval \<Rightarrow> dark \<Rightarrow> int \<Rightarrow> int \<Rightarrow> int \<Rightarrow> int \<Rightarrow> error + dark" where
  "average_dark_frames_4d fill dark_data nints ngroups nframes groupgap =
     bnd (shape_at (data dark_data) 0) (\<lambda>dint.
     bnd (shape_at (data dark_data) 2) (\<lambda>dny.
     bnd (shape_at (data dark_data) 3) (\<lambda>dnx.
     bnd (DarkData fill [int dint, ngroups, int dny, int dnx]) (\<lambda>avg_dark.
     (let num_ints = (if int dint > nints then nints else int dint) in
      bnd (average_ints_4d (data avg_dark) (data dark_data) ngroups nframes groupgap
             [0..<nat num_ints]) (\<lambda>d.
      Inr (avg_dark\<lparr>data := d, groupdq := groupdq dark_data,
                     exp_nframes := nframes, exp_ngroups := ngroups,
                     exp_groupgap := groupgap\<rparr>)))))))"

subsection \<open>\<^verbatim>\<open>do_correction_data\<close>\<close>

text \<open>The frame accounting of lines 105 to 114. The division is Python's true division of
  integers, which raises on a zero divisor; \<open>ceil (a / b)\<close> is \<open>- (- a div b)\<close>.\<close>

definition total_frames :: "int \<Rightarrow> int \<Rightarrow> int \<Rightarrow> int" where
  "total_frames ngroups nframes groupgap = ngroups * nframes + (ngroups - 1) * groupgap"

definition groups_to_extrapolate :: "int \<Rightarrow> int \<Rightarrow> int \<Rightarrow> error + int" where
  "groups_to_extrapolate frames_to_extrapolate drk_nframes drk_groupgap =
     (if drk_nframes + drk_groupgap = 0 then Inl ZeroDivisionError
      else Inr (- ((- (frames_to_extrapolate + drk_groupgap)) div (drk_nframes + drk_groupgap))))"

text \<open>\<^verbatim>\<open>dark_data.data[np.isnan(dark_data.data)] = 0.0\<close>, line 130.\<close>

definition nan_to_zero :: "fval ndarray \<Rightarrow> fval ndarray" where
  "nan_to_zero a = a\<lparr>elem := (\<lambda>idx. if isnan (elem a idx) then Fin 0 else elem a idx)\<rparr>"

text \<open>
  What a call leaves behind: the two returned values, and the caller's science and dark
  objects as they are after the call (the function assigns to attributes of both).
\<close>

record outcome =
  output_data :: science
  averaged_dark :: "dark option"
  science_after :: science
  dark_after :: dark

definition do_correction_data :: "fval \<Rightarrow> science \<Rightarrow> dark \<Rightarrow> string option \<Rightarrow> error + outcome" where
  "do_correction_data fill science_data dark_data dark_output =
     bnd (shape_at (data science_data) 0) (\<lambda>sci_nints.
     bnd (shape_at (data science_data) 1) (\<lambda>sci_ngroups.
     (let sci_nframes = exp_nframes science_data;
          sci_groupgap = exp_groupgap science_data in
      bnd (if ndim (data dark_data) = 4 then shape_at (data dark_data) 1
           else shape_at (data dark_data) 0) (\<lambda>drk_ngroups.
      (let drk_nframes = exp_nframes dark_data;
           drk_groupgap = exp_groupgap dark_data;
           sci_total_frames = total_frames (int sci_ngroups) sci_nframes sci_groupgap;
           drk_total_frames = total_frames (int drk_ngroups) drk_nframes drk_groupgap in
       bnd (if sci_total_frames > drk_total_frames
            then bnd (groups_to_extrapolate (sci_total_frames - drk_total_frames)
                        drk_nframes drk_groupgap) (\<lambda>k. extrapolate_dark dark_data k)
            else Inr dark_data) (\<lambda>dark_data1.
       if drk_nframes > sci_nframes \<or> drk_groupgap > sci_groupgap
       then (let science_data' = science_data\<lparr>cal_step := Some ''SKIPPED''\<rparr> in
             Inr \<lparr>output_data = science_data', averaged_dark = None,
                  science_after = science_data', dark_after = dark_data1\<rparr>)
       else
         (let dark_data2 = dark_data1\<lparr>data := nan_to_zero (data dark_data1)\<rparr> in
          if sci_nframes = drk_nframes \<and> sci_groupgap = drk_groupgap
          then
            bnd (subtract_dark science_data dark_data2) (\<lambda>output_data.
            (let dark_data3 = (case dark_output of
                                 None \<Rightarrow> dark_data2
                               | Some name \<Rightarrow> dark_data2\<lparr>save := True, output_name := Some name\<rparr>)
             in Inr \<lparr>output_data = output_data\<lparr>cal_step := Some ''COMPLETE''\<rparr>,
                     averaged_dark = (case dark_output of None \<Rightarrow> None | Some name \<Rightarrow> Some dark_data3),
                     science_after = science_data, dark_after = dark_data3\<rparr>))
          else
            bnd (if ndim (data dark_data2) = 4
                 then average_dark_frames_4d fill dark_data2 (int sci_nints) (int sci_ngroups)
                        sci_nframes sci_groupgap
                 else average_dark_frames_3d fill dark_data2 (int sci_ngroups)
                        sci_nframes sci_groupgap) (\<lambda>avg.
            (let averaged = (case dark_output of
                               None \<Rightarrow> avg
                             | Some name \<Rightarrow> avg\<lparr>save := True, output_name := Some name\<rparr>) in
             bnd (subtract_dark science_data averaged) (\<lambda>output_data.
             Inr \<lparr>output_data = output_data\<lparr>cal_step := Some ''COMPLETE''\<rparr>,
                  averaged_dark = Some averaged,
                  science_after = science_data, dark_after = dark_data2\<rparr>))))))))))"

subsection \<open>OR-reduction in a given order\<close>

text \<open>
  The reduction that the specification describes for the DQ planes of a 4-D dark: the
  planes of a list are combined with bitwise OR in the order of the list, starting from
  the first. It is compared below with the loop \<open>collapse_dq\<close> of the source. A reduction
  over no plane has no result.
\<close>

fun or_reduce_from :: "32 word ndarray \<Rightarrow> 32 word ndarray list \<Rightarrow> error + 32 word ndarray" where
  "or_reduce_from acc [] = Inr acc"
| "or_reduce_from acc (p # ps) = bnd (binop (OR) acc p) (\<lambda>acc'. or_reduce_from acc' ps)"

definition or_reduce :: "32 word ndarray list \<Rightarrow> error + 32 word ndarray" where
  "or_reduce planes = (case planes of [] \<Rightarrow> Inl ValueError | p # ps \<Rightarrow> or_reduce_from p ps)"

subsection \<open>Sample exposures\<close>

text \<open>Small science and dark objects on which the results below are evaluated.\<close>

definition ex_science :: science where
  "ex_science =
     \<lparr>data = \<lparr>shape = [2, 2, 1, 2], elem = (\<lambda>idx. Fin (real (sum_list idx)))\<rparr>,
      exp_nframes = 1, exp_groupgap = 0,
      pixeldq = \<lparr>shape = [1, 2], elem = (\<lambda>idx. 4)\<rparr>,
      exp_intstart = None, cal_step = None\<rparr>"

definition ex_dark4 :: dark where
  "ex_dark4 =
     \<lparr>data = \<lparr>shape = [1, 2, 1, 2], elem = (\<lambda>idx. Fin (real (idx ! 1) + 1))\<rparr>,
      exp_nframes = 1, exp_groupgap = 0,
      groupdq = \<lparr>shape = [1, 2, 1, 2], elem = (\<lambda>idx. 1)\<rparr>,
      exp_ngroups = 2, save = False, output_name = None\<rparr>"

definition ex_science3 :: science where
  "ex_science3 =
     \<lparr>data = \<lparr>shape = [1, 3, 1, 1], elem = (\<lambda>idx. Fin 10)\<rparr>,
      exp_nframes = 1, exp_groupgap = 0,
      pixeldq = \<lparr>shape = [1, 1], elem = (\<lambda>idx. 0)\<rparr>,
      exp_intstart = None, cal_step = None\<rparr>"

definition ex_dark_nan :: dark where
  "ex_dark_nan =
     \<lparr>data = \<lparr>shape = [2, 1, 1], elem = (\<lambda>idx. if hd idx = 0 then Fin 1 else NaN)\<rparr>,
      exp_nframes = 1, exp_groupgap = 0,
      groupdq = \<lparr>shape = [1, 1], elem = (\<lambda>idx. 2)\<rparr>,
      exp_ngroups = 2, save = False, output_name = None\<rparr>"

definition ex_dark_one :: dark where
  "ex_dark_one =
     \<lparr>data = \<lparr>shape = [1, 1, 1], elem = (\<lambda>idx. Fin 1)\<rparr>,
      exp_nframes = 2, exp_groupgap = 0,
      groupdq = \<lparr>shape = [1, 1], elem = (\<lambda>idx. 0)\<rparr>,
      exp_ngroups = 1, save = False, output_name = None\<rparr>"

definition ex_dark_coarse :: dark where
  "ex_dark_coarse =
     \<lparr>data = \<lparr>shape = [2, 1, 1], elem = (\<lambda>idx. Fin 1)\<rparr>,
      exp_nframes = 2, exp_groupgap = 0,
      groupdq = \<lparr>shape = [1, 1], elem = (\<lambda>idx. 0)\<rparr>,
      exp_ngroups = 2, save = False, output_name = None\<rparr>"

definition ex_dark4_one :: dark where
  "ex_dark4_one =
     \<lparr>data = \<lparr>shape = [1, 1, 1, 1], elem = (\<lambda>idx. Fin 1)\<rparr>,
      exp_nframes = 1, exp_groupgap = 0,
      groupdq = \<lparr>shape = [1, 1, 1, 1], elem = (\<lambda>idx. 0)\<rparr>,
      exp_ngroups = 1, save = False, output_name = None\<rparr>"

definition ex_dark_rank2 :: dark where
  "ex_dark_rank2 =
     \<lparr>data = \<lparr>shape = [2, 2], elem = (\<lambda>idx. Fin 1)\<rparr>,
      exp_nframes = 1, exp_groupgap = 0,
      groupdq = \<lparr>shape = [1, 2], elem = (\<lambda>idx. 0)\<rparr>,
      exp_ngroups = 2, save = False, output_name = None\<rparr>"

text \<open>A pixel of the corrected science data that a call returns.\<close>

definition result_pixel :: "error + outcome \<Rightarrow> nat list \<Rightarrow> error + fval" where
  "result_pixel r idx = map_sum id (\<lambda>res. elem (data (output_data res)) idx) r"

definition ex_dark4b :: dark where
  "ex_dark4b =
     \<lparr>data = \<lparr>shape = [2, 2, 1, 2], elem = (\<lambda>idx. Fin (real (hd idx) + 1))\<rparr>,
      exp_nframes = 1, exp_groupgap = 0,
      groupdq = \<lparr>shape = [2, 2, 1, 2], elem = (\<lambda>idx. if hd idx = 0 then 1 else 2)\<rparr>,
      exp_ngroups = 2, save = False, output_name = None\<rparr>"

definition ex_dark3 :: dark where
  "ex_dark3 =
     \<lparr>data = \<lparr>shape = [4, 1, 1], elem = (\<lambda>idx. Fin (real (hd idx)))\<rparr>,
      exp_nframes = 1, exp_groupgap = 0,
      groupdq = \<lparr>shape = [1, 1], elem = (\<lambda>idx. 0)\<rparr>,
      exp_ngroups = 4, save = False, output_name = None\<rparr>"

section \<open>Properties\<close>

subsection \<open>The array operations\<close>

lemma bnd_Inr_iff: "bnd m f = Inr y \<longleftrightarrow> (\<exists>x. m = Inr x \<and> f x = Inr y)"
  by (cases m) (simp_all add: bnd_def)

lemma bnd_Inr [simp]: "bnd (Inr x) f = f x"
  by (simp add: bnd_def)

lemma bnd_Inl [simp]: "bnd (Inl e) f = Inl e"
  by (simp add: bnd_def)

lemma py_index_nat [simp]: "py_index n (int i) = (if i < n then Inr i else Inl IndexError)"
  by (simp add: py_index_def)

lemma py_index_Inr: "py_index n i = Inr j \<Longrightarrow> j < n"
  by (auto simp: py_index_def Let_def split: if_splits)


lemma getitem_nat:
  "shape a = n # sh \<Longrightarrow> i < n \<Longrightarrow>
     getitem a (int i) = Inr \<lparr>shape = sh, elem = (\<lambda>idx. elem a (i # idx))\<rparr>"
  by (simp add: getitem_def)

lemma in_range_length: "in_range sh idx \<Longrightarrow> length idx = length sh"
  by (simp add: in_range_def list_all2_lengthD)

lemma map2_in_range:
  "list_all2 (\<lambda>i n. i < n) idx sh \<Longrightarrow> map2 (\<lambda>d i. if d = (1::nat) then 0 else i) sh idx = (idx::nat list)"
  by (induction idx sh rule: list_all2_induct) auto

lemma bidx_in_range: "in_range sh idx \<Longrightarrow> bidx sh idx = idx"
  using map2_in_range [of idx sh] list_all2_lengthD [of "\<lambda>i n. i < n" idx sh]
  by (simp add: in_range_def bidx_def)

lemma bshape_rev_same: "bshape_rev s s = Some s"
  by (induction s) auto

lemma broadcast_shapes_same [simp]: "broadcast_shapes s s = Some s"
  by (simp add: broadcast_shapes_def bshape_rev_same)

lemma strip_ones_same [simp]: "strip_ones (length s) s = s"
  by (cases s) auto

lemma assign_cast_same:
  "shape v = sh \<Longrightarrow> assign_cast v sh = Inr \<lparr>shape = sh, elem = (\<lambda>idx. elem v (bidx sh idx))\<rparr>"
  by (simp add: assign_cast_def broadcast_to_def Let_def)

lemma iop_Inr:
  "iop f a b = Inr r \<Longrightarrow>
     shape r = shape a \<and>
     elem r = (\<lambda>idx. f (elem a (bidx (shape a) idx)) (elem b (bidx (shape b) idx)))"
  by (auto simp: iop_def binop_def bnd_Inr_iff split: option.splits if_splits)

lemma iop_same:
  "shape b = shape a \<Longrightarrow>
   iop f a b = Inr \<lparr>shape = shape a,
                    elem = (\<lambda>idx. f (elem a (bidx (shape a) idx)) (elem b (bidx (shape a) idx)))\<rparr>"
  by (simp add: iop_def binop_def)


lemma iop_Inr_shapes:
  "iop f a b = Inr r \<Longrightarrow> broadcast_shapes (shape a) (shape b) = Some (shape a)"
  by (auto simp: iop_def binop_def bnd_Inr_iff split: option.splits if_splits)

lemma iop_shapes_Inr:
  "broadcast_shapes (shape a) (shape b) = Some (shape a) \<Longrightarrow> \<exists>r. iop f a b = Inr r"
  by (simp add: iop_def binop_def)

lemma getitem_nat_Inr:
  "getitem a (int i) = Inr b \<Longrightarrow>
     \<exists>n. shape a = n # shape b \<and> i < n \<and> elem b = (\<lambda>idx. elem a (i # idx))"
  by (auto simp: getitem_def bnd_Inr_iff split: list.splits if_splits)

lemma getitem2_nat_Inr:
  "getitem2 a (int i) (int j) = Inr b \<Longrightarrow>
     \<exists>n m. shape a = n # m # shape b \<and> i < n \<and> j < m \<and>
            elem b = (\<lambda>idx. elem a (i # j # idx))"
  by (fastforce simp: getitem2_def bnd_Inr_iff dest!: getitem_nat_Inr)

lemma getitem2_nat:
  "shape a = n # m # sh \<Longrightarrow> i < n \<Longrightarrow> j < m \<Longrightarrow>
     getitem2 a (int i) (int j) = Inr \<lparr>shape = sh, elem = (\<lambda>idx. elem a (i # j # idx))\<rparr>"
  by (simp add: getitem2_def getitem_def)

lemma setitem_nat:
  "shape a = n # sh \<Longrightarrow> i < n \<Longrightarrow> shape v = sh \<Longrightarrow>
     setitem a (int i) v =
       Inr (a\<lparr>elem := (\<lambda>idx. case idx of [] \<Rightarrow> elem a []
                          | k # r \<Rightarrow> if k = i then elem v (bidx sh r) else elem a idx)\<rparr>)"
  by (simp add: setitem_def assign_cast_same cong: list.case_cong if_cong)

lemma in_range_Cons [simp]: "in_range (n # sh) (k # r) \<longleftrightarrow> k < n \<and> in_range sh r"
  by (simp add: in_range_def)

lemma in_range_Nil [simp]: "in_range (n # sh) [] \<longleftrightarrow> False" "in_range [] idx \<longleftrightarrow> idx = []"
  by (simp_all add: in_range_def)

lemma setitem2_nat:
  assumes "shape a = n # m # sh" "i < n" "j < m" "shape v = sh"
  shows "\<exists>a'. setitem2 a (int i) (int j) v = Inr a' \<and> shape a' = shape a \<and>
           (\<forall>k l r. l < m \<and> in_range sh r \<longrightarrow>
              elem a' (k # l # r) = (if k = i \<and> l = j then elem v r else elem a (k # l # r)))"
proof -
  let ?b = "\<lparr>shape = m # sh, elem = (\<lambda>idx. elem a (i # idx))\<rparr>"
  have g: "getitem a (int i) = Inr ?b"
    using assms by (simp add: getitem_nat)
  let ?b' = "?b\<lparr>elem := (\<lambda>idx. case idx of [] \<Rightarrow> elem ?b []
                          | k # r \<Rightarrow> if k = j then elem v (bidx sh r) else elem ?b idx)\<rparr>"
  have s1: "setitem ?b (int j) v = Inr ?b'"
    using assms by (intro setitem_nat) simp_all
  have sb: "shape ?b' = m # sh" by simp
  let ?a' = "a\<lparr>elem := (\<lambda>idx. case idx of [] \<Rightarrow> elem a []
                          | k # r \<Rightarrow> if k = i then elem ?b' (bidx (m # sh) r) else elem a idx)\<rparr>"
  have s2: "setitem a (int i) ?b' = Inr ?a'"
    using assms(1,2) sb by (intro setitem_nat) simp_all
  have e: "setitem2 a (int i) (int j) v = Inr ?a'"
    unfolding setitem2_def using g s1 s2 by simp
  have "elem ?a' (k # l # r) = (if k = i \<and> l = j then elem v r else elem a (k # l # r))"
    if r: "in_range sh r" and lm: "l < m" for k l r
  proof (cases "k = i")
    case False
    then show ?thesis by simp
  next
    case True
    have "in_range (m # sh) (l # r)" using r lm by simp
    then have "bidx (m # sh) (l # r) = l # r" by (rule bidx_in_range)
    then show ?thesis using True r by (simp add: bidx_in_range)
  qed
  then show ?thesis using e by auto
qed

lemma sub_groups_Inr:
  assumes "sub_groups out i dsci js = Inr out'" "distinct js"
  shows "shape out' = shape out \<and>
         (\<forall>k l r. l < hd (tl (shape out)) \<and> in_range (drop 2 (shape out)) r \<longrightarrow>
            elem out' (k # l # r) =
              (if k = i \<and> l \<in> set js
               then fsub (elem out (k # l # r)) (elem dsci (l # bidx (tl (shape dsci)) r))
               else elem out (k # l # r))) \<and>
         (\<forall>l \<in> set js. i < hd (shape out) \<and> l < hd (tl (shape out)) \<and> 2 \<le> length (shape out) \<and>
            (\<exists>d. getitem dsci (int l) = Inr d \<and>
                 broadcast_shapes (drop 2 (shape out)) (shape d) = Some (drop 2 (shape out))))"
  using assms
proof (induction js arbitrary: out)
  case Nil
  then show ?case by simp
next
  case (Cons j js)
  from Cons.prems(1) obtain t d r out1 where
    t: "getitem2 out (int i) (int j) = Inr t" and
    d: "getitem dsci (int j) = Inr d" and
    r: "iop fsub t d = Inr r" and
    o1: "setitem2 out (int i) (int j) r = Inr out1" and
    rest: "sub_groups out1 i dsci js = Inr out'"
    by (auto simp: bnd_Inr_iff)
  from getitem2_nat_Inr [OF t] obtain n m where
    sh: "shape out = n # m # shape t" and i: "i < n" and j: "j < m" and
    et: "elem t = (\<lambda>idx. elem out (i # j # idx))" by blast
  from getitem_nat_Inr [OF d] obtain dn where
    shd: "shape dsci = dn # shape d" and ed: "elem d = (\<lambda>idx. elem dsci (j # idx))" by blast
  from iop_Inr [OF r] have shr: "shape r = shape t" and
    er: "elem r = (\<lambda>idx. fsub (elem t (bidx (shape t) idx)) (elem d (bidx (shape d) idx)))"
    by simp_all
  from setitem2_nat [OF sh i j shr] o1 have sho1: "shape out1 = shape out" and
    eo1: "\<And>k l r'. l < m \<Longrightarrow> in_range (shape t) r' \<Longrightarrow>
       elem out1 (k # l # r') = (if k = i \<and> l = j then elem r r' else elem out (k # l # r'))"
    by auto
  from Cons.prems(2) have dj: "distinct js" and jn: "j \<notin> set js" by simp_all
  note IH = Cons.IH [OF rest dj]
  have A: "shape out' = shape out" using IH sho1 by simp
  have B: "elem out' (k # l # r') =
              (if k = i \<and> l \<in> set (j # js)
               then fsub (elem out (k # l # r')) (elem dsci (l # bidx (tl (shape dsci)) r'))
               else elem out (k # l # r'))"
    if "l < hd (tl (shape out))" "in_range (drop 2 (shape out)) r'" for k l r'
  proof -
    from that have lm: "l < m" and rr: "in_range (shape t) r'" using sh by simp_all
    have "elem out' (k # l # r') =
              (if k = i \<and> l \<in> set js
               then fsub (elem out1 (k # l # r')) (elem dsci (l # bidx (tl (shape dsci)) r'))
               else elem out1 (k # l # r'))"
      using IH that sho1 by simp
    then show ?thesis
      using eo1 [OF lm rr] jn by (auto simp: er et ed shd bidx_in_range [OF rr])
  qed
  have C: "i < hd (shape out) \<and> l < hd (tl (shape out)) \<and> 2 \<le> length (shape out) \<and>
            (\<exists>d. getitem dsci (int l) = Inr d \<and>
                 broadcast_shapes (drop 2 (shape out)) (shape d) = Some (drop 2 (shape out)))"
    if "l \<in> set (j # js)" for l
  proof (cases "l = j")
    case True
    then show ?thesis using sh i j d iop_Inr_shapes [OF r] by simp
  next
    case False
    then show ?thesis using that IH sho1 by simp
  qed
  show ?case using A B C by blast
qed


lemma sub_ints_Inr:
  assumes "sub_ints out dd dn s ng is = Inr out'" "distinct is" "shape out = n # ng # sh"
  shows "shape out' = shape out \<and>
         (\<forall>k. k \<notin> set is \<longrightarrow> (\<forall>l r. l < ng \<and> in_range sh r \<longrightarrow>
                 elem out' (k # l # r) = elem out (k # l # r))) \<and>
         (\<forall>k \<in> set is. \<exists>sel. select_dark dd dn s k = Inr sel \<and>
            (\<forall>l < ng. k < n \<and> (\<exists>d. getitem sel (int l) = Inr d \<and>
                 broadcast_shapes sh (shape d) = Some sh \<and>
                 (\<forall>r. in_range sh r \<longrightarrow>
                    elem out' (k # l # r) =
                       fsub (elem out (k # l # r)) (elem d (bidx (shape d) r))))))"
  using assms
proof (induction "is" arbitrary: out)
  case Nil
  then show ?case by simp
next
  case (Cons i "is")
  from Cons.prems(1) obtain dsci out1 where
    sel: "select_dark dd dn s i = Inr dsci" and
    g: "sub_groups out i dsci [0..<ng] = Inr out1" and
    rest: "sub_ints out1 dd dn s ng is = Inr out'"
    by (auto simp: bnd_Inr_iff)
  note G = sub_groups_Inr [OF g distinct_upt]
  from G have sho1: "shape out1 = n # ng # sh" using Cons.prems(3) by simp
  from Cons.prems(2) have di: "distinct is" and ni: "i \<notin> set is" by simp_all
  note IH = Cons.IH [OF rest di sho1]
  have eo1: "elem out1 (k # l # r) =
              (if k = i then fsub (elem out (k # l # r)) (elem dsci (l # bidx (tl (shape dsci)) r))
               else elem out (k # l # r))"
    if "l < ng" "in_range sh r" for k l r
    using G that Cons.prems(3) by simp
  have A: "shape out' = shape out" using IH sho1 Cons.prems(3) by simp
  have B: "elem out' (k # l # r) = elem out (k # l # r)"
    if "k \<notin> set (i # is)" "l < ng" "in_range sh r" for k l r
    using IH that eo1 by simp
  have C: "\<exists>sel. select_dark dd dn s k = Inr sel \<and>
            (\<forall>l < ng. k < n \<and> (\<exists>d. getitem sel (int l) = Inr d \<and>
                 broadcast_shapes sh (shape d) = Some sh \<and>
                 (\<forall>r. in_range sh r \<longrightarrow>
                    elem out' (k # l # r) =
                       fsub (elem out (k # l # r)) (elem d (bidx (shape d) r)))))"
    if k: "k \<in> set (i # is)" for k
  proof (cases "k = i")
    case True
    have "k < n \<and> (\<exists>d. getitem dsci (int l) = Inr d \<and>
                 broadcast_shapes sh (shape d) = Some sh \<and>
                 (\<forall>r. in_range sh r \<longrightarrow>
                    elem out' (k # l # r) =
                       fsub (elem out (k # l # r)) (elem d (bidx (shape d) r))))"
      if l: "l < ng" for l
    proof -
      have lin: "l \<in> set [0..<ng]" using l by simp
      from G have "i < hd (shape out) \<and> (\<exists>d. getitem dsci (int l) = Inr d \<and>
          broadcast_shapes (drop 2 (shape out)) (shape d) = Some (drop 2 (shape out)))"
        using lin by blast
      then obtain d where
        kn: "i < n" and d: "getitem dsci (int l) = Inr d" and
        b: "broadcast_shapes sh (shape d) = Some sh"
        using Cons.prems(3) by auto
      from getitem_nat_Inr [OF d] obtain dn' where
        shd: "shape dsci = dn' # shape d" and ed: "elem d = (\<lambda>idx. elem dsci (l # idx))"
        by blast
      have "elem out' (k # l # r) = fsub (elem out (k # l # r)) (elem d (bidx (shape d) r))"
        if r: "in_range sh r" for r
      proof -
        have "elem out' (k # l # r) = elem out1 (k # l # r)"
          using IH ni True l r by simp
        then show ?thesis using eo1 [OF l r] True by (simp add: ed shd)
      qed
      then show ?thesis using kn d b True by blast
    qed
    then show ?thesis using sel True by blast
  next
    case False
    then have kin: "k \<in> set is" using k by simp
    with IH obtain sel' where
      s': "select_dark dd dn s k = Inr sel'" and
      P: "\<forall>l < ng. k < n \<and> (\<exists>d. getitem sel' (int l) = Inr d \<and>
                 broadcast_shapes sh (shape d) = Some sh \<and>
                 (\<forall>r. in_range sh r \<longrightarrow>
                    elem out' (k # l # r) =
                       fsub (elem out1 (k # l # r)) (elem d (bidx (shape d) r))))"
      by blast
    have "\<forall>l < ng. k < n \<and> (\<exists>d. getitem sel' (int l) = Inr d \<and>
                 broadcast_shapes sh (shape d) = Some sh \<and>
                 (\<forall>r. in_range sh r \<longrightarrow>
                    elem out' (k # l # r) =
                       fsub (elem out (k # l # r)) (elem d (bidx (shape d) r))))"
      using P eo1 False by (metis (no_types, lifting))
    then show ?thesis using s' by blast
  qed
  show ?case using A B C by blast
qed


lemma shape_at_Inr: "shape_at a k = Inr n \<Longrightarrow> k < length (shape a) \<and> n = shape a ! k"
  by (auto simp: shape_at_def split: if_splits)

lemma binop_of_iop: "iop f a b = Inr r \<Longrightarrow> binop f a b = Inr r"
  by (auto simp: iop_def bnd_Inr_iff split: if_splits)

lemma length_gt3: "3 < length xs \<Longrightarrow> \<exists>a b c d r. xs = a # b # c # d # r"
proof -
  assume l: "3 < length xs"
  then obtain a x1 where 1: "xs = a # x1" by (cases xs) auto
  with l obtain b x2 where 2: "x1 = b # x2" by (cases x1) auto
  with l 1 obtain c x3 where 3: "x2 = c # x3" by (cases x2) auto
  with l 1 2 obtain d r where 4: "x3 = d # r" by (cases x3) auto
  from 1 2 3 4 show ?thesis by blast
qed

lemma subtract_dark_Inr:
  assumes "subtract_dark sd dd = Inr out"
  shows "\<exists>n ng ny nx sh. shape (data sd) = n # ng # ny # nx # sh \<and>
           sub_ints (data sd) (data dd)
             (if ndim (data dd) = 4 then hd (shape (data dd)) else 1)
             (case exp_intstart sd of None \<Rightarrow> 1 | Some s \<Rightarrow> s) ng [0..<n] = Inr (data out)"
proof -
  from assms obtain n ng a b odata where
    n: "shape_at (data sd) 0 = Inr n" and ng: "shape_at (data sd) 1 = Inr ng" and
    a: "shape_at (data sd) 2 = Inr a" and b: "shape_at (data sd) 3 = Inr b" and
    l: "sub_ints (data sd) (data dd)
             (if ndim (data dd) = 4 then hd (shape (data dd)) else 1)
             (case exp_intstart sd of None \<Rightarrow> 1 | Some s \<Rightarrow> s) ng [0..<n] = Inr odata" and
    o: "data out = odata"
    by (auto simp: subtract_dark_def Let_def bnd_Inr_iff)
  from shape_at_Inr [OF b] have len: "3 < length (shape (data sd))" by simp
  from length_gt3 [OF len] obtain x0 x1 x2 x3 sh where
    sh: "shape (data sd) = x0 # x1 # x2 # x3 # sh" by blast
  with shape_at_Inr [OF n] shape_at_Inr [OF ng] have "x0 = n" "x1 = ng" by simp_all
  with sh l o show ?thesis by auto
qed

subsection \<open>Subtraction of the selected dark\<close>

text \<open>
  Claim C1. When \<^verbatim>\<open>subtract_dark\<close> returns, then for every science integration \<open>i\<close>
  and group \<open>j\<close> the output data at \<open>[i, j]\<close> is the science data at \<open>[i, j]\<close> minus group
  \<open>j\<close> of the selected dark. For a 4-D dark the selected dark is \<open>data[i]\<close> if
  \<open>i < dark_nints\<close> and \<open>int_start = 1\<close> (1 when \<open>exp_intstart\<close> is absent), and the last
  dark integration \<open>data[-1]\<close> otherwise; any other dark is applied as it is to every
  science integration.
\<close>

theorem subtract_dark_data:
  assumes "subtract_dark science_data dark_data = Inr output"
    and "i < shape (data science_data) ! 0"
    and "j < shape (data science_data) ! 1"
  shows "\<exists>dark_sci dj sij diff oij.
     (if ndim (data dark_data) = 4
      then (if i < hd (shape (data dark_data)) \<and>
               (case exp_intstart science_data of None \<Rightarrow> 1 | Some s \<Rightarrow> s) = 1
            then getitem (data dark_data) (int i)
            else getitem (data dark_data) (- 1))
      else Inr (data dark_data)) = Inr dark_sci \<and>
     getitem dark_sci (int j) = Inr dj \<and>
     getitem2 (data science_data) (int i) (int j) = Inr sij \<and>
     binop fsub sij dj = Inr diff \<and>
     getitem2 (data output) (int i) (int j) = Inr oij \<and>
     arr_eq oij diff"
proof -
  let ?dn = "if ndim (data dark_data) = 4 then hd (shape (data dark_data)) else 1"
  let ?s = "case exp_intstart science_data of None \<Rightarrow> 1 | Some s \<Rightarrow> s"
  from subtract_dark_Inr [OF assms(1)] obtain n ng ny nx sh where
    sh: "shape (data science_data) = n # ng # ny # nx # sh" and
    l: "sub_ints (data science_data) (data dark_data) ?dn ?s ng [0..<n] = Inr (data output)"
    by blast
  from assms(2,3) sh have i: "i < n" and j: "j < ng" by simp_all
  note L = sub_ints_Inr [OF l distinct_upt sh]
  have "i \<in> set [0..<n]" using i by simp
  with L obtain sel where
    sel: "select_dark (data dark_data) ?dn ?s i = Inr sel" and
    P: "\<forall>l < ng. i < n \<and> (\<exists>d. getitem sel (int l) = Inr d \<and>
                 broadcast_shapes (ny # nx # sh) (shape d) = Some (ny # nx # sh) \<and>
                 (\<forall>r. in_range (ny # nx # sh) r \<longrightarrow>
                    elem (data output) (i # l # r) =
                       fsub (elem (data science_data) (i # l # r)) (elem d (bidx (shape d) r))))"
    by blast
  from P j obtain d where
    d: "getitem sel (int j) = Inr d" and
    b: "broadcast_shapes (ny # nx # sh) (shape d) = Some (ny # nx # sh)" and
    e: "\<And>r. in_range (ny # nx # sh) r \<Longrightarrow>
           elem (data output) (i # j # r) =
             fsub (elem (data science_data) (i # j # r)) (elem d (bidx (shape d) r))"
    by blast
  let ?sij = "\<lparr>shape = ny # nx # sh, elem = (\<lambda>idx. elem (data science_data) (i # j # idx))\<rparr>"
  let ?oij = "\<lparr>shape = ny # nx # sh, elem = (\<lambda>idx. elem (data output) (i # j # idx))\<rparr>"
  let ?diff = "\<lparr>shape = ny # nx # sh,
       elem = (\<lambda>idx. fsub (elem ?sij (bidx (shape ?sij) idx)) (elem d (bidx (shape d) idx)))\<rparr>"
  have g1: "getitem2 (data science_data) (int i) (int j) = Inr ?sij"
    using sh i j by (rule getitem2_nat)
  have sho: "shape (data output) = n # ng # ny # nx # sh" using L sh by simp
  have g2: "getitem2 (data output) (int i) (int j) = Inr ?oij"
    using sho i j by (rule getitem2_nat)
  have bo: "binop fsub ?sij d = Inr ?diff"
    using b by (simp add: binop_def)
  have eq: "arr_eq ?oij ?diff"
    unfolding arr_eq_def
  proof (intro conjI allI impI)
    show "shape ?oij = shape ?diff" by simp
  next
    fix idx assume "in_range (shape ?oij) idx"
    then have r: "in_range (ny # nx # sh) idx" by simp
    show "elem ?oij idx = elem ?diff idx"
      using e [OF r] by (simp add: bidx_in_range [OF r])
  qed
  have S: "(if ndim (data dark_data) = 4
      then (if i < hd (shape (data dark_data)) \<and> ?s = 1
            then getitem (data dark_data) (int i)
            else getitem (data dark_data) (- 1))
      else Inr (data dark_data)) = Inr sel"
    using sel by (cases "ndim (data dark_data) = 4") (simp_all add: select_dark_def)
  show ?thesis
    by (rule exI [of _ sel], rule exI [of _ d], rule exI [of _ ?sij],
        rule exI [of _ ?diff], rule exI [of _ ?oij])
       (intro conjI S d g1 bo g2 eq)
qed


lemma upt_small: "[0..<2] = [0, 1]" "[1..<1] = []" "[0..<1] = [0]" "[1..<2] = [1]"
  by (simp_all add: upt_rec)

lemma ex_subtract_returns: "\<exists>out. subtract_dark ex_science ex_dark4 = Inr out"
  by (simp add: subtract_dark_def ex_science_def ex_dark4_def ndim_def shape_at_def
      getitem2_s2_def getitem2_def getitem_def py_index_def binop_def broadcast_shapes_def
      select_dark_def upt_small iop_def setitem2_def setitem_def assign_cast_def
      broadcast_to_def Let_def)

theorem subtract_dark_data_witness:
  "\<exists>out. subtract_dark ex_science ex_dark4 = Inr out \<and>
     (1::nat) < shape (data ex_science) ! 0 \<and> (1::nat) < shape (data ex_science) ! 1 \<and>
     (\<exists>dark_sci dj sij diff oij.
        getitem (data ex_dark4) (- 1) = Inr dark_sci \<and>
        getitem dark_sci 1 = Inr dj \<and>
        getitem2 (data ex_science) 1 1 = Inr sij \<and>
        binop fsub sij dj = Inr diff \<and>
        getitem2 (data out) 1 1 = Inr oij \<and>
        arr_eq oij diff)"
proof -
  from ex_subtract_returns obtain out where
    h: "subtract_dark ex_science ex_dark4 = Inr out" by blast
  have a: "(1::nat) < shape (data ex_science) ! 0" by (simp add: ex_science_def)
  have b: "(1::nat) < shape (data ex_science) ! 1" by (simp add: ex_science_def)
  have c: "ndim (data ex_dark4) = 4" "hd (shape (data ex_dark4)) = 1"
    by (simp_all add: ex_dark4_def ndim_def)
  from subtract_dark_data [OF h a b] c h a b show ?thesis by simp
qed

subsection \<open>Extrapolation\<close>

lemma fadd_commute: "fadd a b = fadd b a"
  by (cases a; cases b) simp_all

lemma bshape_rev_append: "bshape_rev (xs @ zs) xs = Some (xs @ zs)"
proof (induction xs)
  case Nil
  then show ?case by (cases zs) simp_all
next
  case (Cons x xs)
  then show ?case by simp
qed

lemma broadcast_shapes_Cons [simp]: "broadcast_shapes (n # s) s = Some (n # s)"
  using bshape_rev_append [of "rev s" "[n]"] by (simp add: broadcast_shapes_def)

lemma broadcast_shapes_arange [simp]:
  "broadcast_shapes [n, Suc 0, Suc 0] [n, ny, nx] = Some [n, ny, nx]"
  by (simp add: broadcast_shapes_def)

lemma py_index_last [simp]: "0 < n \<Longrightarrow> py_index n (- 1) = Inr (n - 1)"
  by (auto simp: py_index_def Let_def)

lemma py_index_prev [simp]: "2 \<le> n \<Longrightarrow> py_index n (- 2) = Inr (n - 2)"
  by (auto simp: py_index_def Let_def)

lemma bidx_longer: "length s \<le> length idx \<Longrightarrow> bidx s (k # idx) = bidx s idx"
  by (simp add: bidx_def Suc_diff_le)

lemma bidx_arange: "k < n \<Longrightarrow> bidx [n, Suc 0, Suc 0] [k, r, c] = [k, 0, 0]"
  by (auto simp: bidx_def)

lemma extrapolate_int_3d:
  assumes sh: "shape arr = [G, ny, nx]" and G: "2 \<le> G"
  shows "\<exists>ext. extrapolate_int arr (int n) = Inr ext \<and> shape ext = [G + n, ny, nx] \<and>
           (\<forall>g r c. g < G + n \<and> r < ny \<and> c < nx \<longrightarrow>
              elem ext [g, r, c] =
                (if g < G then elem arr [g, r, c]
                 else fadd (fmul (Fin (real (g - G) + 1))
                              (fsub (elem arr [G - 1, r, c]) (elem arr [G - 2, r, c])))
                        (elem arr [G - 1, r, c])))"
proof -
  let ?last = "\<lparr>shape = [ny, nx], elem = (\<lambda>idx. elem arr ((G - 1) # idx))\<rparr>"
  let ?prev = "\<lparr>shape = [ny, nx], elem = (\<lambda>idx. elem arr ((G - 2) # idx))\<rparr>"
  have l: "getitem arr (- 1) = Inr ?last"
    using sh G by (simp add: getitem_def)
  have p: "getitem arr (- 2) = Inr ?prev"
    using sh G by (simp add: getitem_def)
  have ls: "getitem_s2 arr (- 1) = Inr ?last" "getitem_s2 arr (- 2) = Inr ?prev"
    using sh l p by (simp_all add: getitem_s2_def ndim_def)
  define rate where "rate =
    \<lparr>shape = [ny, nx],
     elem = (\<lambda>idx. fsub (elem ?last (bidx [ny, nx] idx)) (elem ?prev (bidx [ny, nx] idx)))\<rparr>"
  have r: "binop fsub ?last ?prev = Inr rate"
    by (simp add: binop_def rate_def)
  have shr: "shape rate = [ny, nx]" by (simp add: rate_def)
  define ks where "ks =
    \<lparr>shape = [n, ny, nx], elem = (\<lambda>idx. elem (arange1 (int n)) (bidx [n, 1, 1] idx))\<rparr>"
  have k: "broadcast_to (arange1 (int n)) (n # shape rate) = Inr ks"
    using shr by (simp add: broadcast_to_def arange1_def ks_def)
  have shk: "shape ks = [n, ny, nx]" by (simp add: ks_def)
  define scaled where "scaled =
    \<lparr>shape = [n, ny, nx],
     elem = (\<lambda>idx. fmul (elem ks (bidx [n, ny, nx] idx)) (elem rate (bidx [ny, nx] idx)))\<rparr>"
  have s: "binop fmul ks rate = Inr scaled"
    using shk shr by (simp add: binop_def scaled_def)
  have shs: "shape scaled = [n, ny, nx]" by (simp add: scaled_def)
  define new where "new =
    \<lparr>shape = [n, ny, nx],
     elem = (\<lambda>idx. fadd (elem scaled (bidx [n, ny, nx] idx)) (elem ?last (bidx [ny, nx] idx)))\<rparr>"
  have a: "binop fadd scaled ?last = Inr new"
    using shs by (simp add: binop_def new_def)
  have shn: "shape new = [n, ny, nx]" by (simp add: new_def)
  let ?ext = "\<lparr>shape = [G + n, ny, nx],
                elem = (\<lambda>idx. case idx of [] \<Rightarrow> elem arr []
                          | k # r \<Rightarrow> if k < G then elem arr (k # r) else elem new ((k - G) # r))\<rparr>"
  have c: "concatenate arr new = Inr ?ext"
    using sh shn by (simp add: concatenate_def)
  have e: "extrapolate_int arr (int n) = Inr ?ext"
    unfolding extrapolate_int_def using ls r k s l a c shr by simp
  have v: "elem ?ext [g, r, c] =
                (if g < G then elem arr [g, r, c]
                 else fadd (fmul (Fin (real (g - G) + 1))
                              (fsub (elem arr [G - 1, r, c]) (elem arr [G - 2, r, c])))
                        (elem arr [G - 1, r, c]))"
    if "g < G + n" "r < ny" "c < nx" for g r c
  proof (cases "g < G")
    case True
    then show ?thesis by simp
  next
    case False
    have k: "g - G < n" using that(1) False by simp
    have in3: "in_range [n, ny, nx] [g - G, r, c]" and in2: "in_range [ny, nx] [r, c]"
      using k that(2,3) by simp_all
    have b1: "bidx [n, ny, nx] [g - G, r, c] = [g - G, r, c]"
      using in3 by (rule bidx_in_range)
    have b2: "bidx [ny, nx] [r, c] = [r, c]"
      using in2 by (rule bidx_in_range)
    have b3: "bidx [ny, nx] [g - G, r, c] = [r, c]"
      using b2 by (simp add: bidx_longer)
    have "real (g - G) = real g - real G" using False by simp
    then show ?thesis
      using False
      by (simp add: new_def scaled_def ks_def rate_def arange1_def b1 b2 b3 bidx_arange [OF k])
  qed
  show ?thesis using e v by (intro exI [of _ ?ext]) simp
qed

lemma extrapolate_ints_4d:
  assumes "shape tmp = [nints, G, a, b]" "2 \<le> G" "shape new = [nints, G + n, a, b]"
    and "set is \<subseteq> {..<nints}" "distinct is"
  shows "\<exists>new'. extrapolate_ints new tmp (int n) is = Inr new' \<and> shape new' = shape new \<and>
           (\<forall>i g r c. g < G + n \<and> r < a \<and> c < b \<longrightarrow>
              elem new' [i, g, r, c] =
                (if i \<in> set is
                 then (if g < G then elem tmp [i, g, r, c]
                       else fadd (fmul (Fin (real (g - G) + 1))
                                    (fsub (elem tmp [i, G - 1, r, c]) (elem tmp [i, G - 2, r, c])))
                              (elem tmp [i, G - 1, r, c]))
                 else elem new [i, g, r, c]))"
  using assms(3-5)
proof (induction "is" arbitrary: new)
  case Nil
  then show ?case by simp
next
  case (Cons i "is")
  from Cons.prems have i: "i < nints" and sub: "set is \<subseteq> {..<nints}" and
    di: "distinct is" and ni: "i \<notin> set is" by auto
  let ?arr = "\<lparr>shape = [G, a, b], elem = (\<lambda>idx. elem tmp (i # idx))\<rparr>"
  have g: "getitem tmp (int i) = Inr ?arr"
    using assms(1) i by (simp add: getitem_nat)
  have "shape ?arr = [G, a, b]" by simp
  from extrapolate_int_3d [OF this assms(2), of n] obtain ext where
    e: "extrapolate_int ?arr (int n) = Inr ext" and she: "shape ext = [G + n, a, b]" and
    ee: "\<And>g r c. g < G + n \<Longrightarrow> r < a \<Longrightarrow> c < b \<Longrightarrow>
           elem ext [g, r, c] =
             (if g < G then elem tmp [i, g, r, c]
              else fadd (fmul (Fin (real (g - G) + 1))
                           (fsub (elem tmp [i, G - 1, r, c]) (elem tmp [i, G - 2, r, c])))
                     (elem tmp [i, G - 1, r, c]))"
    by auto
  let ?new1 = "new\<lparr>elem := (\<lambda>idx. case idx of [] \<Rightarrow> elem new []
                          | k # r \<Rightarrow> if k = i then elem ext (bidx [G + n, a, b] r)
                                   else elem new idx)\<rparr>"
  have s: "setitem new (int i) ext = Inr ?new1"
    using Cons.prems(1) i she by (intro setitem_nat) simp_all
  have sh1: "shape ?new1 = [nints, G + n, a, b]" using Cons.prems(1) by simp
  from Cons.IH [OF sh1 sub di] obtain new' where
    r: "extrapolate_ints ?new1 tmp (int n) is = Inr new'" and
    shn: "shape new' = shape ?new1" and
    en: "\<And>k g r c. g < G + n \<Longrightarrow> r < a \<Longrightarrow> c < b \<Longrightarrow>
           elem new' [k, g, r, c] =
             (if k \<in> set is
              then (if g < G then elem tmp [k, g, r, c]
                    else fadd (fmul (Fin (real (g - G) + 1))
                                 (fsub (elem tmp [k, G - 1, r, c]) (elem tmp [k, G - 2, r, c])))
                           (elem tmp [k, G - 1, r, c]))
              else elem ?new1 [k, g, r, c])"
    by auto
  have run: "extrapolate_ints new tmp (int n) (i # is) = Inr new'"
    using g e s r by simp
  have v: "elem new' [k, g, r, c] =
             (if k \<in> set (i # is)
              then (if g < G then elem tmp [k, g, r, c]
                    else fadd (fmul (Fin (real (g - G) + 1))
                                 (fsub (elem tmp [k, G - 1, r, c]) (elem tmp [k, G - 2, r, c])))
                           (elem tmp [k, G - 1, r, c]))
              else elem new [k, g, r, c])"
    if "g < G + n" "r < a" "c < b" for k g r c
  proof -
    have "in_range [G + n, a, b] [g, r, c]" using that by simp
    then have bi: "bidx [G + n, a, b] [g, r, c] = [g, r, c]" by (rule bidx_in_range)
    show ?thesis
      using en [OF that] ee [OF that] ni by (auto simp: bi)
  qed
  show ?case using run shn v by auto
qed

lemma extrapolate_dark_3d:
  assumes sh: "shape (data dark_data) = [G, ny, nx]" and G: "2 \<le> G"
  shows "\<exists>d. extrapolate_dark dark_data (int n) = Inr d \<and>
           d = dark_data\<lparr>data := data d, exp_ngroups := exp_ngroups dark_data + int n\<rparr> \<and>
           shape (data d) = [G + n, ny, nx] \<and>
           (\<forall>g r c. g < G + n \<and> r < ny \<and> c < nx \<longrightarrow>
              elem (data d) [g, r, c] =
                (if g < G then elem (data dark_data) [g, r, c]
                 else fadd (fmul (Fin (real (g - G) + 1))
                              (fsub (elem (data dark_data) [G - 1, r, c])
                                    (elem (data dark_data) [G - 2, r, c])))
                        (elem (data dark_data) [G - 1, r, c])))"
proof -
  from extrapolate_int_3d [OF sh G, of n] obtain ext where
    e: "extrapolate_int (data dark_data) (int n) = Inr ext" and
    rest: "shape ext = [G + n, ny, nx] \<and>
           (\<forall>g r c. g < G + n \<and> r < ny \<and> c < nx \<longrightarrow>
              elem ext [g, r, c] =
                (if g < G then elem (data dark_data) [g, r, c]
                 else fadd (fmul (Fin (real (g - G) + 1))
                              (fsub (elem (data dark_data) [G - 1, r, c])
                                    (elem (data dark_data) [G - 2, r, c])))
                        (elem (data dark_data) [G - 1, r, c])))"
    by blast
  have "extrapolate_dark dark_data (int n) =
          Inr (dark_data\<lparr>data := ext, exp_ngroups := exp_ngroups dark_data + int n\<rparr>)"
    using sh e by (simp add: extrapolate_dark_def)
  with rest show ?thesis by simp
qed

lemma extrapolate_dark_4d:
  assumes sh: "shape (data dark_data) = [nints, G, ny, nx]" and G: "2 \<le> G"
  shows "\<exists>d. extrapolate_dark dark_data (int n) = Inr d \<and>
           d = dark_data\<lparr>data := data d, exp_ngroups := exp_ngroups dark_data + int n\<rparr> \<and>
           shape (data d) = [nints, G + n, ny, nx] \<and>
           (\<forall>i g r c. i < nints \<and> g < G + n \<and> r < ny \<and> c < nx \<longrightarrow>
              elem (data d) [i, g, r, c] =
                (if g < G then elem (data dark_data) [i, g, r, c]
                 else fadd (fmul (Fin (real (g - G) + 1))
                              (fsub (elem (data dark_data) [i, G - 1, r, c])
                                    (elem (data dark_data) [i, G - 2, r, c])))
                        (elem (data dark_data) [i, G - 1, r, c])))"
proof -
  let ?new = "full [nints, G + n, ny, nx] NaN"
  have shn: "shape ?new = [nints, G + n, ny, nx]" by (simp add: full_def)
  have sub: "set [0..<nints] \<subseteq> {..<nints}" by auto
  from extrapolate_ints_4d [OF sh G shn sub distinct_upt] obtain new' where
    r: "extrapolate_ints ?new (data dark_data) (int n) [0..<nints] = Inr new'" and
    sh': "shape new' = [nints, G + n, ny, nx]" and
    v: "\<And>i g r c. g < G + n \<Longrightarrow> r < ny \<Longrightarrow> c < nx \<Longrightarrow>
              elem new' [i, g, r, c] =
                (if i \<in> set [0..<nints]
                 then (if g < G then elem (data dark_data) [i, g, r, c]
                       else fadd (fmul (Fin (real (g - G) + 1))
                                    (fsub (elem (data dark_data) [i, G - 1, r, c])
                                          (elem (data dark_data) [i, G - 2, r, c])))
                              (elem (data dark_data) [i, G - 1, r, c]))
                 else elem ?new [i, g, r, c])"
    using shn by auto
  have "nat (int G + int n) = G + n" by simp
  then have "extrapolate_dark dark_data (int n) =
          Inr (dark_data\<lparr>data := new', exp_ngroups := exp_ngroups dark_data + int n\<rparr>)"
    using sh r by (simp add: extrapolate_dark_def)
  moreover have "elem new' [i, g, r, c] =
                (if g < G then elem (data dark_data) [i, g, r, c]
                 else fadd (fmul (Fin (real (g - G) + 1))
                              (fsub (elem (data dark_data) [i, G - 1, r, c])
                                    (elem (data dark_data) [i, G - 2, r, c])))
                        (elem (data dark_data) [i, G - 1, r, c]))"
    if "i < nints" "g < G + n" "r < ny" "c < nx" for i g r c
    using v [OF that(2,3,4), of i] that(1) by simp
  ultimately show ?thesis using sh' by simp
qed

text \<open>
  Claim C4. A dark whose data has the shape \<open>pre @ [G, ny, nx]\<close>, where \<open>pre\<close> is empty
  (3-D) or holds the number of integrations (4-D), and which has at least 2 groups, is
  extrapolated by \<open>n\<close> groups: the call returns; each integration gets exactly \<open>n\<close> new
  groups; the groups that existed are equal to the input; new group \<open>k\<close> (counted from 1) is
  \<open>data[last] + k * rate\<close> with \<open>rate = data[last] - data[last - 1]\<close> at every pixel; and
  \<open>exp_ngroups\<close> becomes \<open>exp_ngroups + n\<close>.
\<close>

theorem extrapolate_dark_groups:
  assumes "shape (data dark_data) = pre @ [G, ny, nx]" and "length pre \<le> 1" and "2 \<le> G"
  shows "\<exists>d. extrapolate_dark dark_data (int n) = Inr d \<and>
           shape (data d) = pre @ [G + n, ny, nx] \<and>
           exp_ngroups d = exp_ngroups dark_data + int n \<and>
           (\<forall>p r c. in_range pre p \<and> r < ny \<and> c < nx \<longrightarrow>
              (\<forall>g < G. elem (data d) (p @ [g, r, c]) = elem (data dark_data) (p @ [g, r, c])) \<and>
              (\<forall>k. 1 \<le> k \<and> k \<le> n \<longrightarrow>
                 elem (data d) (p @ [G - 1 + k, r, c]) =
                   fadd (elem (data dark_data) (p @ [G - 1, r, c]))
                     (fmul (Fin (real k))
                        (fsub (elem (data dark_data) (p @ [G - 1, r, c]))
                              (elem (data dark_data) (p @ [G - 2, r, c]))))))"
proof (cases pre)
  case Nil
  with assms have sh: "shape (data dark_data) = [G, ny, nx]" by simp
  from extrapolate_dark_3d [OF sh assms(3), of n] obtain d where
    e: "extrapolate_dark dark_data (int n) = Inr d" and
    m: "d = dark_data\<lparr>data := data d, exp_ngroups := exp_ngroups dark_data + int n\<rparr>" and
    sd: "shape (data d) = [G + n, ny, nx]" and
    v: "\<And>g r c. g < G + n \<Longrightarrow> r < ny \<Longrightarrow> c < nx \<Longrightarrow>
              elem (data d) [g, r, c] =
                (if g < G then elem (data dark_data) [g, r, c]
                 else fadd (fmul (Fin (real (g - G) + 1))
                              (fsub (elem (data dark_data) [G - 1, r, c])
                                    (elem (data dark_data) [G - 2, r, c])))
                        (elem (data dark_data) [G - 1, r, c]))"
    by blast
  have ng: "exp_ngroups d = exp_ngroups dark_data + int n" by (subst m) simp
  have old: "elem (data d) [g, r, c] = elem (data dark_data) [g, r, c]"
    if "g < G" "r < ny" "c < nx" for g r c
    using v [of g r c] that by simp
  have new: "elem (data d) [G - 1 + k, r, c] =
                   fadd (elem (data dark_data) [G - 1, r, c])
                     (fmul (Fin (real k))
                        (fsub (elem (data dark_data) [G - 1, r, c])
                              (elem (data dark_data) [G - 2, r, c])))"
    if "1 \<le> k" "k \<le> n" "r < ny" "c < nx" for k r c
  proof -
    have a: "G - 1 + k < G + n" "\<not> G - 1 + k < G" using that(1,2) assms(3) by auto
    have b: "real (G - 1 + k - G) + 1 = real k" using that(1) assms(3) by auto
    show ?thesis using v [OF a(1) that(3,4)] a(2) b by (simp add: fadd_commute)
  qed
  show ?thesis using e sd ng old new Nil by auto
next
  case (Cons nints rest)
  with assms(2) have pre: "pre = [nints]" by simp
  with assms have sh: "shape (data dark_data) = [nints, G, ny, nx]" by simp
  from extrapolate_dark_4d [OF sh assms(3), of n] obtain d where
    e: "extrapolate_dark dark_data (int n) = Inr d" and
    m: "d = dark_data\<lparr>data := data d, exp_ngroups := exp_ngroups dark_data + int n\<rparr>" and
    sd: "shape (data d) = [nints, G + n, ny, nx]" and
    v: "\<And>i g r c. i < nints \<Longrightarrow> g < G + n \<Longrightarrow> r < ny \<Longrightarrow> c < nx \<Longrightarrow>
              elem (data d) [i, g, r, c] =
                (if g < G then elem (data dark_data) [i, g, r, c]
                 else fadd (fmul (Fin (real (g - G) + 1))
                              (fsub (elem (data dark_data) [i, G - 1, r, c])
                                    (elem (data dark_data) [i, G - 2, r, c])))
                        (elem (data dark_data) [i, G - 1, r, c]))"
    by blast
  have ng: "exp_ngroups d = exp_ngroups dark_data + int n" by (subst m) simp
  have old: "elem (data d) [i, g, r, c] = elem (data dark_data) [i, g, r, c]"
    if "i < nints" "g < G" "r < ny" "c < nx" for i g r c
    using v [of i g r c] that by simp
  have new: "elem (data d) [i, G - 1 + k, r, c] =
                   fadd (elem (data dark_data) [i, G - 1, r, c])
                     (fmul (Fin (real k))
                        (fsub (elem (data dark_data) [i, G - 1, r, c])
                              (elem (data dark_data) [i, G - 2, r, c])))"
    if "i < nints" "1 \<le> k" "k \<le> n" "r < ny" "c < nx" for i k r c
  proof -
    have a: "G - 1 + k < G + n" "\<not> G - 1 + k < G" using that(2,3) assms(3) by auto
    have b: "real (G - 1 + k - G) + 1 = real k" using that(2) assms(3) by auto
    show ?thesis using v [OF that(1) a(1) that(4,5)] a(2) b by (simp add: fadd_commute)
  qed
  have p: "in_range [nints] p \<longleftrightarrow> (\<exists>i < nints. p = [i])" for p
    by (cases p) auto
  show ?thesis using e sd ng old new pre by (auto simp: p)
qed

theorem extrapolate_dark_groups_witness:
  "shape (data ex_dark4) = [1] @ [2, 1, 2] \<and> length [1::nat] \<le> 1 \<and> (2::nat) \<le> 2 \<and>
   (\<exists>d. extrapolate_dark ex_dark4 (int 2) = Inr d \<and>
        shape (data d) = [1, 4, 1, 2] \<and> exp_ngroups d = 4 \<and>
        elem (data d) [0, 0, 0, 1] = Fin 1 \<and>
        elem (data d) [0, 3, 0, 1] = Fin 4)"
proof -
  have h1: "shape (data ex_dark4) = [1] @ [2, 1, 2]" by (simp add: ex_dark4_def)
  have h2: "length [1::nat] \<le> 1" by simp
  have h3: "(2::nat) \<le> 2" by simp
  from extrapolate_dark_groups [OF h1 h2 h3, of 2] obtain d where
    e: "extrapolate_dark ex_dark4 (int 2) = Inr d" and
    s: "shape (data d) = [1] @ [2 + 2, 1, 2]" and
    n: "exp_ngroups d = exp_ngroups ex_dark4 + int 2" and
    v: "\<forall>p r c. in_range [1] p \<and> r < 1 \<and> c < 2 \<longrightarrow>
              (\<forall>g < 2. elem (data d) (p @ [g, r, c]) = elem (data ex_dark4) (p @ [g, r, c])) \<and>
              (\<forall>k. 1 \<le> k \<and> k \<le> 2 \<longrightarrow>
                 elem (data d) (p @ [2 - 1 + k, r, c]) =
                   fadd (elem (data ex_dark4) (p @ [2 - 1, r, c]))
                     (fmul (Fin (real k))
                        (fsub (elem (data ex_dark4) (p @ [2 - 1, r, c]))
                              (elem (data ex_dark4) (p @ [2 - 2, r, c])))))"
    by blast
  from v have v': "(\<forall>g < 2. elem (data d) ([0] @ [g, 0, 1]) = elem (data ex_dark4) ([0] @ [g, 0, 1])) \<and>
              (\<forall>k. 1 \<le> k \<and> k \<le> 2 \<longrightarrow>
                 elem (data d) ([0] @ [2 - 1 + k, 0, 1]) =
                   fadd (elem (data ex_dark4) ([0] @ [2 - 1, 0, 1]))
                     (fmul (Fin (real k))
                        (fsub (elem (data ex_dark4) ([0] @ [2 - 1, 0, 1]))
                              (elem (data ex_dark4) ([0] @ [2 - 2, 0, 1])))))"
    by (elim allE [of _ "[0]"] allE [of _ "0::nat"] allE [of _ "1::nat"]) simp
  from v' have old: "elem (data d) ([0] @ [0, 0, 1]) = elem (data ex_dark4) ([0] @ [0, 0, 1])"
    by simp
  from v' have new: "elem (data d) ([0] @ [2 - 1 + 2, 0, 1]) =
                   fadd (elem (data ex_dark4) ([0] @ [2 - 1, 0, 1]))
                     (fmul (Fin (real (2::nat)))
                        (fsub (elem (data ex_dark4) ([0] @ [2 - 1, 0, 1]))
                              (elem (data ex_dark4) ([0] @ [2 - 2, 0, 1]))))"
    by (elim conjE allE [of _ "2::nat"]) simp
  have o: "elem (data d) [0, 0, 0, 1] = Fin 1"
    using old by (simp add: ex_dark4_def)
  have w: "elem (data d) [0, 3, 0, 1] = Fin 4"
    using new by (simp add: ex_dark4_def numeral_3_eq_3)
  show ?thesis
    using h1 e s n o w by (simp add: ex_dark4_def)
qed

subsection \<open>The orchestrator\<close>

lemma shape_nan_to_zero [simp]: "shape (nan_to_zero a) = shape a"
  by (simp add: nan_to_zero_def)

lemma ndim_nan_to_zero [simp]: "ndim (nan_to_zero a) = ndim a"
  by (simp add: ndim_def)

text \<open>The steps of \<^verbatim>\<open>do_correction_data\<close> up to the skip test, and what follows them.\<close>

lemma do_correction_data_steps:
  assumes n: "shape_at (data sd) 0 = Inr n" and ng: "shape_at (data sd) 1 = Inr ng"
    and G: "(if ndim (data dd) = 4 then shape_at (data dd) 1 else shape_at (data dd) 0) = Inr G"
    and d1: "(if total_frames (int ng) (exp_nframes sd) (exp_groupgap sd)
           > total_frames (int G) (exp_nframes dd) (exp_groupgap dd)
      then bnd (groups_to_extrapolate
                  (total_frames (int ng) (exp_nframes sd) (exp_groupgap sd)
                     - total_frames (int G) (exp_nframes dd) (exp_groupgap dd))
                  (exp_nframes dd) (exp_groupgap dd)) (\<lambda>k. extrapolate_dark dd k)
      else Inr dd) = Inr d1"
  shows "do_correction_data fill sd dd out =
       (if exp_nframes dd > exp_nframes sd \<or> exp_groupgap dd > exp_groupgap sd
       then (let science_data' = sd\<lparr>cal_step := Some ''SKIPPED''\<rparr> in
             Inr \<lparr>output_data = science_data', averaged_dark = None,
                  science_after = science_data', dark_after = d1\<rparr>)
       else
         (let dark_data2 = d1\<lparr>data := nan_to_zero (data d1)\<rparr> in
          if exp_nframes sd = exp_nframes dd \<and> exp_groupgap sd = exp_groupgap dd
          then
            bnd (subtract_dark sd dark_data2) (\<lambda>output_data.
            (let dark_data3 = (case out of
                                 None \<Rightarrow> dark_data2
                               | Some name \<Rightarrow> dark_data2\<lparr>save := True, output_name := Some name\<rparr>)
             in Inr \<lparr>output_data = output_data\<lparr>cal_step := Some ''COMPLETE''\<rparr>,
                     averaged_dark = (case out of None \<Rightarrow> None | Some name \<Rightarrow> Some dark_data3),
                     science_after = sd, dark_after = dark_data3\<rparr>))
          else
            bnd (if ndim (data dark_data2) = 4
                 then average_dark_frames_4d fill dark_data2 (int n) (int ng)
                        (exp_nframes sd) (exp_groupgap sd)
                 else average_dark_frames_3d fill dark_data2 (int ng)
                        (exp_nframes sd) (exp_groupgap sd)) (\<lambda>avg.
            (let averaged = (case out of
                               None \<Rightarrow> avg
                             | Some name \<Rightarrow> avg\<lparr>save := True, output_name := Some name\<rparr>) in
             bnd (subtract_dark sd averaged) (\<lambda>output_data.
             Inr \<lparr>output_data = output_data\<lparr>cal_step := Some ''COMPLETE''\<rparr>,
                  averaged_dark = Some averaged,
                  science_after = sd, dark_after = dark_data2\<rparr>)))))"
  unfolding do_correction_data_def Let_def using n ng G d1
  by (simp only: bnd_Inr)











lemma ceil_div_covers:
  fixes a d :: int
  assumes "0 < d"
  shows "a \<le> (- ((- a) div d)) * d"
proof -
  have "(- a) div d * d + (- a) mod d = - a" by simp
  moreover have "0 \<le> (- a) mod d" using assms by simp
  ultimately have "(- a) div d * d \<le> - a" by linarith
  then show ?thesis by simp
qed






subsection \<open>The skip policy\<close>

lemma shape_at_nat: "k < ndim a \<Longrightarrow> shape_at a k = Inr (shape a ! k)"
  by (simp add: shape_at_def ndim_def)

lemma extrapolate_dark_returns:
  assumes "shape (data dd) = pre @ [G, ny, nx]" "length pre \<le> 1" "2 \<le> G"
  shows "\<exists>d. extrapolate_dark dd (int n) = Inr d"
proof (cases pre)
  case Nil
  with assms have "shape (data dd) = [G, ny, nx]" by simp
  from extrapolate_dark_3d [OF this assms(3), of n] show ?thesis by blast
next
  case (Cons a rest)
  with assms(2) have "pre = [a]" by simp
  with assms have "shape (data dd) = [a, G, ny, nx]" by simp
  from extrapolate_dark_4d [OF this assms(3), of n] show ?thesis by blast
qed

text \<open>The extrapolation step of \<^verbatim>\<open>do_correction_data\<close> returns for a 3-D or 4-D dark
  that needs no extrapolation or has at least two groups and a cadence with
  \<open>nframes \<ge> 1\<close> and \<open>groupgap \<ge> 0\<close>.\<close>

lemma extrapolation_step_returns:
  assumes drk: "shape (data dd) = pre @ [G, ny, nx]" "length pre \<le> 1"
    and ext: "S \<le> total_frames (int G) (exp_nframes dd) (exp_groupgap dd) \<or>
              (2 \<le> G \<and> 1 \<le> exp_nframes dd \<and> 0 \<le> exp_groupgap dd)"
  shows "\<exists>d1. (if S > total_frames (int G) (exp_nframes dd) (exp_groupgap dd)
      then bnd (groups_to_extrapolate
                  (S - total_frames (int G) (exp_nframes dd) (exp_groupgap dd))
                  (exp_nframes dd) (exp_groupgap dd)) (\<lambda>k. extrapolate_dark dd k)
      else Inr dd) = Inr d1"
proof (cases "S > total_frames (int G) (exp_nframes dd) (exp_groupgap dd)")
  case False
  then show ?thesis by simp
next
  case True
  let ?n = "exp_nframes dd" and ?g = "exp_groupgap dd"
  let ?F = "S - total_frames (int G) ?n ?g"
  from True ext have G: "2 \<le> G" and n: "1 \<le> ?n" and g: "0 \<le> ?g" by auto
  define k where "k = - ((- (?F + ?g)) div (?n + ?g))"
  have pos: "0 < ?n + ?g" using n g by simp
  have gk: "groups_to_extrapolate ?F ?n ?g = Inr k"
    using pos by (simp add: groups_to_extrapolate_def k_def)
  have "?F + ?g \<le> k * (?n + ?g)" unfolding k_def using pos by (rule ceil_div_covers)
  moreover have "0 < ?F + ?g" using True g by simp
  ultimately have "0 < k * (?n + ?g)" by linarith
  then have "0 \<le> k" using pos by (simp add: zero_less_mult_iff)
  then have ki: "int (nat k) = k" by simp
  from extrapolate_dark_returns [OF drk G, of "nat k"] obtain d1 where
    "extrapolate_dark dd k = Inr d1" unfolding ki by blast
  with True gk show ?thesis by simp
qed

lemma drk_ngroups_3d4d:
  assumes "shape (data dd) = pre @ [G, ny, nx]" "length pre \<le> 1"
  shows "(if ndim (data dd) = 4 then shape_at (data dd) 1 else shape_at (data dd) 0) = Inr G"
proof (cases pre)
  case Nil
  with assms show ?thesis by (simp add: ndim_def shape_at_def)
next
  case (Cons a rest)
  with assms(2) have "pre = [a]" by simp
  with assms show ?thesis by (simp add: ndim_def shape_at_def)
qed

text \<open>
  Claim C2, amended. For every science input with at least two axes and every 3-D or 4-D
  dark with \<open>drk_nframes > sci_nframes\<close> or \<open>drk_groupgap > sci_groupgap\<close>, on which the
  extrapolation step that runs before the test does not raise (the dark covers the science
  exposure, or it has at least two groups and a cadence with \<open>nframes \<ge> 1\<close> and
  \<open>groupgap \<ge> 0\<close>), \<^verbatim>\<open>do_correction_data\<close> returns a science object with the data of
  the input, \<open>cal_step = SKIPPED\<close>, and no dark.
\<close>

theorem skip_policy:
  assumes skip: "exp_nframes dark_data > exp_nframes science_data \<or>
                 exp_groupgap dark_data > exp_groupgap science_data"
    and sci: "2 \<le> ndim (data science_data)"
    and drk: "shape (data dark_data) = pre @ [G, ny, nx]" "length pre \<le> 1"
    and ext: "total_frames (int (shape (data science_data) ! 1))
                (exp_nframes science_data) (exp_groupgap science_data)
              \<le> total_frames (int G) (exp_nframes dark_data) (exp_groupgap dark_data) \<or>
              (2 \<le> G \<and> 1 \<le> exp_nframes dark_data \<and> 0 \<le> exp_groupgap dark_data)"
  shows "\<exists>res. do_correction_data fill science_data dark_data dark_output = Inr res \<and>
           data (output_data res) = data science_data \<and>
           output_data res = science_data\<lparr>cal_step := Some ''SKIPPED''\<rparr> \<and>
           averaged_dark res = None"
proof -
  have n: "shape_at (data science_data) 0 = Inr (shape (data science_data) ! 0)"
    and ng: "shape_at (data science_data) 1 = Inr (shape (data science_data) ! 1)"
    using sci by (simp_all add: shape_at_nat)
  note G = drk_ngroups_3d4d [OF drk]
  from extrapolation_step_returns [OF drk ext] obtain d1 where
    d1: "(if total_frames (int (shape (data science_data) ! 1))
                (exp_nframes science_data) (exp_groupgap science_data)
              > total_frames (int G) (exp_nframes dark_data) (exp_groupgap dark_data)
      then bnd (groups_to_extrapolate
                  (total_frames (int (shape (data science_data) ! 1))
                (exp_nframes science_data) (exp_groupgap science_data)
                    - total_frames (int G) (exp_nframes dark_data) (exp_groupgap dark_data))
                  (exp_nframes dark_data) (exp_groupgap dark_data))
               (\<lambda>k. extrapolate_dark dark_data k)
      else Inr dark_data) = Inr d1"
    by blast
  show ?thesis
    unfolding do_correction_data_steps [OF n ng G d1] using skip by (simp add: Let_def)
qed

theorem skip_policy_witness:
  "(exp_nframes ex_dark_coarse > exp_nframes ex_science3 \<or>
    exp_groupgap ex_dark_coarse > exp_groupgap ex_science3) \<and>
   2 \<le> ndim (data ex_science3) \<and>
   shape (data ex_dark_coarse) = [] @ [2, 1, 1] \<and> length ([]::nat list) \<le> 1 \<and>
   (total_frames (int (shape (data ex_science3) ! 1))
       (exp_nframes ex_science3) (exp_groupgap ex_science3)
     \<le> total_frames (int 2) (exp_nframes ex_dark_coarse) (exp_groupgap ex_dark_coarse) \<or>
    ((2::nat) \<le> 2 \<and> 1 \<le> exp_nframes ex_dark_coarse \<and> 0 \<le> exp_groupgap ex_dark_coarse)) \<and>
   (\<exists>res. do_correction_data (Fin 0) ex_science3 ex_dark_coarse None = Inr res \<and>
           data (output_data res) = data ex_science3 \<and>
           output_data res = ex_science3\<lparr>cal_step := Some ''SKIPPED''\<rparr> \<and>
           averaged_dark res = None)"
proof -
  have a: "exp_nframes ex_dark_coarse > exp_nframes ex_science3 \<or>
    exp_groupgap ex_dark_coarse > exp_groupgap ex_science3"
    by (simp add: ex_dark_coarse_def ex_science3_def)
  have b: "2 \<le> ndim (data ex_science3)" by (simp add: ex_science3_def ndim_def)
  have c: "shape (data ex_dark_coarse) = [] @ [2, 1, 1]" by (simp add: ex_dark_coarse_def)
  have d: "length ([]::nat list) \<le> 1" by simp
  have e: "total_frames (int (shape (data ex_science3) ! 1))
       (exp_nframes ex_science3) (exp_groupgap ex_science3)
     \<le> total_frames (int 2) (exp_nframes ex_dark_coarse) (exp_groupgap ex_dark_coarse) \<or>
    ((2::nat) \<le> 2 \<and> 1 \<le> exp_nframes ex_dark_coarse \<and> 0 \<le> exp_groupgap ex_dark_coarse)"
    by (simp add: ex_dark_coarse_def)
  from skip_policy [OF a b c d e, of "Fin 0" None] a b c d e show ?thesis by blast
qed

text \<open>
  Claim C2 as stated fails: the extrapolation step runs before the test, and on a dark with
  a single group that is shorter than the science exposure it raises, so nothing is
  returned although the dark cadence is the coarser one.
\<close>

theorem skip_policy_counterexample:
  "exp_nframes ex_dark_one > exp_nframes ex_science3 \<and>
   do_correction_data (Fin 0) ex_science3 ex_dark_one None = Inl IndexError"
  by (simp add: do_correction_data_def ex_science3_def ex_dark_one_def ndim_def shape_at_def
      total_frames_def groups_to_extrapolate_def extrapolate_dark_def extrapolate_int_def
      getitem_s2_def getitem_def py_index_def Let_def)

subsection \<open>Structural preconditions\<close>

lemma extrapolate_int_short:
  assumes "shape arr = [G, ny, nx]" "G < 2"
  shows "extrapolate_int arr k = Inl IndexError"
proof (cases "G = 0")
  case True
  with assms show ?thesis
    by (simp add: extrapolate_int_def getitem_s2_def ndim_def getitem_def py_index_def)
next
  case False
  with assms have "G = 1" by simp
  with assms show ?thesis
    by (simp add: extrapolate_int_def getitem_s2_def ndim_def getitem_def py_index_def)
qed

lemma extrapolate_dark_short:
  assumes "shape (data dd) = pre @ [G, ny, nx]" "length pre \<le> 1" "\<forall>i \<in> set pre. 0 < i"
    and "G < 2" "0 \<le> k"
  shows "extrapolate_dark dd k = Inl IndexError"
proof (cases pre)
  case Nil
  with assms have sh: "shape (data dd) = [G, ny, nx]" by simp
  from extrapolate_int_short [OF sh assms(4)] sh show ?thesis
    by (simp add: extrapolate_dark_def)
next
  case (Cons nints rest)
  with assms(2) have pre: "pre = [nints]" by simp
  with assms have sh: "shape (data dd) = [nints, G, ny, nx]" and pos: "0 < nints" by simp_all
  let ?arr = "\<lparr>shape = [G, ny, nx], elem = (\<lambda>idx. elem (data dd) (0 # idx))\<rparr>"
  have g: "getitem (data dd) (int 0) = Inr ?arr"
    using sh pos by (intro getitem_nat) simp_all
  have "shape ?arr = [G, ny, nx]" by simp
  note e = extrapolate_int_short [OF this assms(4), of k]
  have u: "[0..<nints] = 0 # [1..<nints]" using pos by (simp add: upt_conv_Cons)
  have "extrapolate_ints new (data dd) k [0..<nints] = Inl IndexError" for new
    unfolding u using g e by simp
  with sh assms(5) show ?thesis by (simp add: extrapolate_dark_def)
qed

text \<open>
  Claim C10, amended. For every science input with at least two axes and every dark (3-D, or
  4-D with at least one integration, cadence with \<open>nframes \<ge> 1\<close> and \<open>groupgap \<ge> 0\<close>)
  that has fewer than 2 groups when extrapolation is required, the correction fails with
  the \<open>IndexError\<close> that the indexing of the last two groups raises. The rank of the dark
  array and the agreement of the spatial shapes are not checked.
\<close>

theorem short_dark_fails:
  assumes sci: "2 \<le> ndim (data science_data)"
    and drk: "shape (data dark_data) = pre @ [G, ny, nx]" "length pre \<le> 1"
             "\<forall>i \<in> set pre. 0 < i"
    and few: "G < 2"
    and cad: "1 \<le> exp_nframes dark_data" "0 \<le> exp_groupgap dark_data"
    and short: "total_frames (int (shape (data science_data) ! 1))
                  (exp_nframes science_data) (exp_groupgap science_data)
                > total_frames (int G) (exp_nframes dark_data) (exp_groupgap dark_data)"
  shows "do_correction_data fill science_data dark_data dark_output = Inl IndexError"
proof -
  let ?n = "exp_nframes dark_data" and ?g = "exp_groupgap dark_data"
  let ?S = "total_frames (int (shape (data science_data) ! 1))
                  (exp_nframes science_data) (exp_groupgap science_data)"
  let ?F = "?S - total_frames (int G) ?n ?g"
  have n: "shape_at (data science_data) 0 = Inr (shape (data science_data) ! 0)"
    and ng: "shape_at (data science_data) 1 = Inr (shape (data science_data) ! 1)"
    using sci by (simp_all add: shape_at_nat)
  note G = drk_ngroups_3d4d [OF drk(1,2)]
  define k where "k = - ((- (?F + ?g)) div (?n + ?g))"
  have pos: "0 < ?n + ?g" using cad by simp
  have gk: "groups_to_extrapolate ?F ?n ?g = Inr k"
    using pos by (simp add: groups_to_extrapolate_def k_def)
  have "?F + ?g \<le> k * (?n + ?g)" unfolding k_def using pos by (rule ceil_div_covers)
  moreover have "0 < ?F + ?g" using short cad by simp
  ultimately have "0 < k * (?n + ?g)" by linarith
  then have k0: "0 \<le> k" using pos by (simp add: zero_less_mult_iff)
  note e = extrapolate_dark_short [OF drk few k0]
  have E: "(if ?S > total_frames (int G) ?n ?g
      then bnd (groups_to_extrapolate ?F ?n ?g) (\<lambda>k. extrapolate_dark dark_data k)
      else Inr dark_data) = Inl IndexError"
    using short gk e by simp
  show ?thesis
    unfolding do_correction_data_def Let_def using n ng G E
    by (simp only: bnd_Inr bnd_Inl)
qed

theorem short_dark_fails_witness:
  "2 \<le> ndim (data ex_science3) \<and>
   shape (data ex_dark4_one) = [1] @ [1, 1, 1] \<and> length [1::nat] \<le> 1 \<and>
   (1::nat) < 2 \<and>
   1 \<le> exp_nframes ex_dark4_one \<and> 0 \<le> exp_groupgap ex_dark4_one \<and>
   total_frames (int (shape (data ex_science3) ! 1))
      (exp_nframes ex_science3) (exp_groupgap ex_science3)
    > total_frames (int 1) (exp_nframes ex_dark4_one) (exp_groupgap ex_dark4_one) \<and>
   do_correction_data (Fin 0) ex_science3 ex_dark4_one None = Inl IndexError"
proof -
  have a: "2 \<le> ndim (data ex_science3)" by (simp add: ex_science3_def ndim_def)
  have b: "shape (data ex_dark4_one) = [1] @ [1, 1, 1]" by (simp add: ex_dark4_one_def)
  have c: "length [1::nat] \<le> 1" by simp
  have d: "\<forall>i \<in> set [1::nat]. 0 < i" by simp
  have e: "(1::nat) < 2" by simp
  have f: "1 \<le> exp_nframes ex_dark4_one" "0 \<le> exp_groupgap ex_dark4_one"
    by (simp_all add: ex_dark4_one_def)
  have g: "total_frames (int (shape (data ex_science3) ! 1))
      (exp_nframes ex_science3) (exp_groupgap ex_science3)
    > total_frames (int 1) (exp_nframes ex_dark4_one) (exp_groupgap ex_dark4_one)"
    by (simp add: ex_science3_def ex_dark4_one_def total_frames_def)
  from short_dark_fails [OF a b c d e f g, of "Fin 0" None] a b c e f g
  show ?thesis by blast
qed

text \<open>
  Claim C10 as stated fails. A dark whose planes are 1 by 1 is subtracted from science
  planes that are 1 by 2, and a dark array of rank 2 is subtracted row by row: both calls
  return a result, and no error is raised.
\<close>

theorem silent_shape_mismatch_counterexample:
  "drop 2 (shape (data ex_science)) = [1, 2] \<and> drop 1 (shape (data ex_dark_nan)) = [1, 1] \<and>
   result_pixel (do_correction_data (Fin 0) ex_science ex_dark_nan None) [0, 0, 0, 1] = Inr (Fin 0) \<and>
   ndim (data ex_dark_rank2) = 2 \<and>
   result_pixel (do_correction_data (Fin 0) ex_science ex_dark_rank2 None) [0, 0, 0, 1] = Inr (Fin 0)"
  by (simp add: result_pixel_def do_correction_data_def ex_science_def ex_dark_nan_def
      ex_dark_rank2_def ndim_def shape_at_def
      total_frames_def nan_to_zero_def isnan_def bidx_def
      subtract_dark_def getitem2_s2_def getitem2_def getitem_def py_index_def binop_def
      broadcast_shapes_def select_dark_def upt_small iop_def setitem2_def setitem_def
      assign_cast_def broadcast_to_def Let_def)

subsection \<open>What the call does to the caller's objects\<close>








subsection \<open>NaN in the dark\<close>







subsection \<open>The union of the quality flags\<close>

lemma map2_bidx_idem:
  "map2 (\<lambda>d i. if d = (1::nat) then 0 else i) s (map2 (\<lambda>d i. if d = 1 then 0 else i) s xs)
     = map2 (\<lambda>d i. if d = 1 then 0 else (i::nat)) s xs"
proof (induction s arbitrary: xs)
  case Nil
  then show ?case by simp
next
  case (Cons d s)
  then show ?case by (cases xs) simp_all
qed

lemma bidx_idem [simp]: "bidx s (bidx s idx) = bidx s idx"
proof -
  let ?f = "\<lambda>d i. if d = (1::nat) then 0 else (i::nat)"
  let ?xs = "drop (length idx - length s) idx"
  have b: "bidx s idx = map2 ?f s ?xs" by (simp only: bidx_def)
  have "length (bidx s idx) \<le> length s" unfolding b by simp
  then have d: "drop (length (bidx s idx) - length s) (bidx s idx) = bidx s idx" by simp
  have "bidx s (bidx s idx) =
          map2 ?f s (drop (length (bidx s idx) - length s) (bidx s idx))"
    by (subst bidx_def) (rule refl)
  also have "\<dots> = map2 ?f s (map2 ?f s ?xs)" unfolding d by (simp only: b)
  also have "\<dots> = map2 ?f s ?xs" by (rule map2_bidx_idem)
  finally show ?thesis by (simp only: b)
qed

lemma or_reduce_from_same_shape:
  assumes "\<forall>q \<in> set ps. shape q = sh" "shape acc = sh"
  shows "\<exists>R. or_reduce_from acc ps = Inr R \<and> shape R = sh \<and>
           (\<forall>idx. elem R (bidx sh idx) =
              fold (OR) (map (\<lambda>q. elem q (bidx sh idx)) ps) (elem acc (bidx sh idx)))"
  using assms
proof (induction ps arbitrary: acc)
  case Nil
  then show ?case by simp
next
  case (Cons p ps)
  let ?acc' = "\<lparr>shape = sh, elem = (\<lambda>idx. elem acc (bidx sh idx) OR elem p (bidx sh idx))\<rparr>"
  have b: "binop (OR) acc p = Inr ?acc'"
    using Cons.prems by (simp add: binop_def)
  from Cons.prems have "\<forall>q \<in> set ps. shape q = sh" "shape ?acc' = sh" by simp_all
  from Cons.IH [OF this] obtain R where
    R: "or_reduce_from ?acc' ps = Inr R" "shape R = sh" and
    e: "\<And>idx. elem R (bidx sh idx) =
              fold (OR) (map (\<lambda>q. elem q (bidx sh idx)) ps) (elem ?acc' (bidx sh idx))"
    by blast
  have "elem R (bidx sh idx) =
          fold (OR) (map (\<lambda>q. elem q (bidx sh idx)) (p # ps)) (elem acc (bidx sh idx))" for idx
    using e [of idx] by (simp add: or.commute)
  with R b show ?case by simp
qed

text \<open>The loop of the source is the reduction of the planes that it reads.\<close>

lemma collapse_dq_planes:
  assumes "collapse_dq gdq acc is = Inr dq"
  shows "\<exists>planes. map (\<lambda>i. getitem2_s2 gdq (int i) 0) is = map Inr planes \<and>
           or_reduce_from acc planes = Inr dq"
  using assms
proof (induction "is" arbitrary: acc)
  case Nil
  then show ?case by simp
next
  case (Cons i "is")
  from Cons.prems obtain p acc' where
    p: "getitem2_s2 gdq (int i) 0 = Inr p" and
    b: "binop (OR) acc p = Inr acc'" and
    r: "collapse_dq gdq acc' is = Inr dq"
    by (auto simp: bnd_Inr_iff)
  from Cons.IH [OF r] obtain planes where
    m: "map (\<lambda>i. getitem2_s2 gdq (int i) 0) is = map Inr planes" and
    o: "or_reduce_from acc' planes = Inr dq" by blast
  have "map (\<lambda>i. getitem2_s2 gdq (int i) 0) (i # is) = map Inr (p # planes)"
    using p m by simp
  moreover have "or_reduce_from acc (p # planes) = Inr dq" using b o by simp
  ultimately show ?case by blast
qed

lemma getitem2_s2_zero_Inr:
  assumes "getitem2_s2 gdq (int i) 0 = Inr p"
  shows "\<exists>a b. shape gdq = a # b # shape p \<and> elem p = (\<lambda>idx. elem gdq (i # 0 # idx))"
proof -
  from assms have "getitem2 gdq (int i) (int 0) = Inr p"
    by (auto simp: getitem2_s2_def split: if_splits)
  from getitem2_nat_Inr [OF this] show ?thesis by blast
qed

lemma fold_or_perm:
  fixes xs ys :: "32 word list"
  assumes "mset xs = mset ys"
  shows "fold (OR) xs z = fold (OR) ys z"
proof -
  have "(OR) x \<circ> (OR) y = (OR) y \<circ> (OR) (x::32 word)" for x y
    by (rule ext) (simp add: or.left_commute)
  then have "fold (OR) xs = fold (OR) ys"
    using assms by (intro fold_multiset_equiv) simp_all
  then show ?thesis by simp
qed

lemma subtract_dark_Inr_dq:
  assumes "subtract_dark sd dd = Inr out"
  shows "\<exists>darkdq.
     (if ndim (data dd) = 4
      then bnd (getitem2_s2 (groupdq dd) 0 0) (\<lambda>p.
           collapse_dq (groupdq dd) p [1..<hd (shape (data dd))])
      else Inr (groupdq dd)) = Inr darkdq \<and>
     binop (OR) (pixeldq sd) darkdq = Inr (pixeldq out)"
proof -
  from assms obtain darkdq pdq odata where
    "(if ndim (data dd) = 4
      then bnd (getitem2_s2 (groupdq dd) 0 0) (\<lambda>p.
           collapse_dq (groupdq dd) p [1..<hd (shape (data dd))])
      else Inr (groupdq dd)) = Inr darkdq"
    "binop (OR) (pixeldq sd) darkdq = Inr pdq"
    "out = sd\<lparr>data := odata, pixeldq := pdq\<rparr>"
    unfolding subtract_dark_def Let_def bnd_Inr_iff by (auto split: if_splits)
  then show ?thesis by auto
qed

lemma map_Inr_eq:
  "map Inr xs = map (\<lambda>i. Inr (f i) :: 'e + 'b) ys \<Longrightarrow> xs = map f ys"
  by (induction xs arbitrary: ys) auto

lemma or_reduce_planes:
  fixes gdq :: "32 word ndarray"
  defines "plane \<equiv> \<lambda>i. \<lparr>shape = drop 2 (shape gdq), elem = (\<lambda>idx. elem gdq (i # 0 # idx))\<rparr>"
  assumes "p \<noteq> []"
  shows "\<exists>R. or_reduce (map plane p) = Inr R \<and> shape R = drop 2 (shape gdq) \<and>
           (\<forall>idx. elem R (bidx (drop 2 (shape gdq)) idx) =
              fold (OR) (map (\<lambda>i. elem gdq (i # 0 # bidx (drop 2 (shape gdq)) idx)) p) 0)"
proof -
  let ?sh = "drop 2 (shape gdq)"
  from assms(2) obtain h t where p: "p = h # t" by (cases p) auto
  have "\<forall>q \<in> set (map plane t). shape q = ?sh" "shape (plane h) = ?sh"
    by (auto simp: plane_def)
  from or_reduce_from_same_shape [OF this] obtain R where
    R: "or_reduce_from (plane h) (map plane t) = Inr R" "shape R = ?sh" and
    e: "\<And>idx. elem R (bidx ?sh idx) =
              fold (OR) (map (\<lambda>q. elem q (bidx ?sh idx)) (map plane t))
                (elem (plane h) (bidx ?sh idx))"
    by blast
  have "elem R (bidx ?sh idx) =
          fold (OR) (map (\<lambda>i. elem gdq (i # 0 # bidx ?sh idx)) p) 0" for idx
    using e [of idx] by (simp add: p plane_def comp_def)
  moreover have "or_reduce (map plane p) = Inr R"
    using R by (simp add: or_reduce_def p)
  ultimately show ?thesis using R by blast
qed

text \<open>
  Claim C7. When \<^verbatim>\<open>subtract_dark\<close> returns, the output \<open>pixeldq\<close> is the bitwise OR of the
  science \<open>pixeldq\<close> with the dark quality plane. For a dark with a 4-D data array that has
  at least one integration, that plane is the OR-reduction of the planes \<open>groupdq[i, 0]\<close>
  over the dark integrations \<open>i\<close>, and the reduction may be taken in the order of any
  permutation \<open>p\<close> of the integrations: the result is the same. For any other dark the
  plane is \<open>groupdq\<close> itself.
\<close>

theorem pixeldq_union:
  assumes "subtract_dark science_data dark_data = Inr output"
  shows "if ndim (data dark_data) = 4
         then 0 < hd (shape (data dark_data)) \<longrightarrow>
              (\<forall>p. mset p = mset [0..<hd (shape (data dark_data))] \<longrightarrow>
                 (\<exists>planes darkdq.
                    map (\<lambda>i. getitem2_s2 (groupdq dark_data) (int i) 0) p = map Inr planes \<and>
                    or_reduce planes = Inr darkdq \<and>
                    binop (OR) (pixeldq science_data) darkdq = Inr (pixeldq output)))
         else binop (OR) (pixeldq science_data) (groupdq dark_data) = Inr (pixeldq output)"
proof (cases "ndim (data dark_data) = 4")
  case False
  with subtract_dark_Inr_dq [OF assms] show ?thesis by auto
next
  case True
  let ?gdq = "groupdq dark_data"
  let ?dn = "hd (shape (data dark_data))"
  let ?sh = "drop 2 (shape ?gdq)"
  let ?plane = "\<lambda>i. \<lparr>shape = ?sh, elem = (\<lambda>idx. elem ?gdq (i # 0 # idx))\<rparr>"
  have "\<exists>planes darkdq.
          map (\<lambda>i. getitem2_s2 ?gdq (int i) 0) p = map Inr planes \<and>
          or_reduce planes = Inr darkdq \<and>
          binop (OR) (pixeldq science_data) darkdq = Inr (pixeldq output)"
    if pos: "0 < ?dn" and perm: "mset p = mset [0..<?dn]" for p
  proof -
    from subtract_dark_Inr_dq [OF assms] True obtain p0 dqc where
      p0: "getitem2_s2 ?gdq 0 0 = Inr p0" and
      c: "collapse_dq ?gdq p0 [1..<?dn] = Inr dqc" and
      b: "binop (OR) (pixeldq science_data) dqc = Inr (pixeldq output)"
      by (auto simp: bnd_Inr_iff)
    from collapse_dq_planes [OF c] obtain planes_c where
      m: "map (\<lambda>i. getitem2_s2 ?gdq (int i) 0) [1..<?dn] = map Inr planes_c" and
      o: "or_reduce_from p0 planes_c = Inr dqc" by blast
    have G1: "getitem2_s2 ?gdq (int i) 0 = Inr (?plane i)" if "i < ?dn" for i
    proof -
      have "\<exists>q. getitem2_s2 ?gdq (int i) 0 = Inr q"
      proof (cases "i = 0")
        case True
        with p0 show ?thesis by simp
      next
        case False
        with that have "i \<in> set [1..<?dn]" by simp
        then have "getitem2_s2 ?gdq (int i) 0 \<in> set (map Inr planes_c)"
          unfolding m [symmetric] by simp
        then show ?thesis by auto
      qed
      then obtain q where q: "getitem2_s2 ?gdq (int i) 0 = Inr q" by blast
      from getitem2_s2_zero_Inr [OF q] have "q = ?plane i" by auto
      with q show ?thesis by simp
    qed
    have u: "[0..<?dn] = 0 # [1..<?dn]" using pos by (simp add: upt_conv_Cons)
    have "map (\<lambda>i. getitem2_s2 ?gdq (int i) 0) [1..<?dn] =
            map (\<lambda>i. Inr (?plane i)) [1..<?dn]"
      by (rule map_cong [OF refl]) (simp add: G1)
    with m have "map Inr planes_c = map (\<lambda>i. Inr (?plane i) :: error + 32 word ndarray) [1..<?dn]"
      by simp
    then have planes_c: "planes_c = map ?plane [1..<?dn]"
      by (rule map_Inr_eq)
    have p0': "p0 = ?plane 0" using G1 [OF pos] p0 by simp
    have code: "or_reduce (map ?plane [0..<?dn]) = Inr dqc"
      using o by (simp add: or_reduce_def u planes_c p0'  del: upt_Suc)
    have ne0: "[0..<?dn] \<noteq> []" using pos by simp
    from or_reduce_planes [OF ne0, of ?gdq] code have
      shc: "shape dqc = ?sh" and
      ec: "\<And>idx. elem dqc (bidx ?sh idx) =
              fold (OR) (map (\<lambda>i. elem ?gdq (i # 0 # bidx ?sh idx)) [0..<?dn]) 0"
      by auto
    have setp: "set p = set [0..<?dn]" using perm by (rule mset_eq_setD)
    then have nep: "p \<noteq> []" using pos by auto
    from or_reduce_planes [OF nep, of ?gdq] obtain R where
      R: "or_reduce (map ?plane p) = Inr R" and shR: "shape R = ?sh" and
      eR: "\<And>idx. elem R (bidx ?sh idx) =
              fold (OR) (map (\<lambda>i. elem ?gdq (i # 0 # bidx ?sh idx)) p) 0"
      by blast
    have same: "elem R (bidx ?sh idx) = elem dqc (bidx ?sh idx)" for idx
      unfolding eR ec using perm by (intro fold_or_perm) simp
    have "map (\<lambda>i. getitem2_s2 ?gdq (int i) 0) p = map (\<lambda>i. Inr (?plane i)) p"
      by (rule map_cong [OF refl]) (use setp in \<open>simp add: G1\<close>)
    then have mp: "map (\<lambda>i. getitem2_s2 ?gdq (int i) 0) p = map Inr (map ?plane p)"
      by (simp add: comp_def)
    have "binop (OR) (pixeldq science_data) R = binop (OR) (pixeldq science_data) dqc"
      by (simp add: binop_def shR shc same cong: option.case_cong)
    with b have "binop (OR) (pixeldq science_data) R = Inr (pixeldq output)" by simp
    with mp R show ?thesis by blast
  qed
  with True show ?thesis by simp
qed

lemma upt_Suc0_2: "[Suc 0..<2] = [Suc 0]"
  by (simp add: upt_rec)

lemma ex_subtract4b_returns: "\<exists>out. subtract_dark ex_science ex_dark4b = Inr out"
  by (simp add: upt_Suc0_2 subtract_dark_def ex_science_def ex_dark4b_def ndim_def shape_at_def
      getitem2_s2_def getitem2_def getitem_def py_index_def binop_def broadcast_shapes_def
      select_dark_def upt_small iop_def setitem2_def setitem_def assign_cast_def
      broadcast_to_def Let_def)

theorem pixeldq_union_witness:
  "\<exists>out. subtract_dark ex_science ex_dark4b = Inr out \<and>
     ndim (data ex_dark4b) = 4 \<and> 0 < hd (shape (data ex_dark4b)) \<and>
     mset [1, 0] = mset [0..<hd (shape (data ex_dark4b))] \<and>
     (\<exists>planes darkdq.
        map (\<lambda>i. getitem2_s2 (groupdq ex_dark4b) (int i) 0) [1, 0] = map Inr planes \<and>
        or_reduce planes = Inr darkdq \<and>
        binop (OR) (pixeldq ex_science) darkdq = Inr (pixeldq out))"
proof -
  from ex_subtract4b_returns obtain out where
    h: "subtract_dark ex_science ex_dark4b = Inr out" by blast
  have a: "ndim (data ex_dark4b) = 4" and b: "0 < hd (shape (data ex_dark4b))"
    by (simp_all add: ex_dark4b_def ndim_def)
  have c: "mset [1, 0] = mset [0..<hd (shape (data ex_dark4b))]"
    by (simp add: ex_dark4b_def upt_small)
  from pixeldq_union [OF h] a have
    "0 < hd (shape (data ex_dark4b)) \<longrightarrow>
       (\<forall>p. mset p = mset [0..<hd (shape (data ex_dark4b))] \<longrightarrow>
          (\<exists>planes darkdq.
             map (\<lambda>i. getitem2_s2 (groupdq ex_dark4b) (int i) 0) p = map Inr planes \<and>
             or_reduce planes = Inr darkdq \<and>
             binop (OR) (pixeldq ex_science) darkdq = Inr (pixeldq out)))"
    by simp
  with b c have "\<exists>planes darkdq.
        map (\<lambda>i. getitem2_s2 (groupdq ex_dark4b) (int i) 0) [1, 0] = map Inr planes \<and>
        or_reduce planes = Inr darkdq \<and>
        binop (OR) (pixeldq ex_science) darkdq = Inr (pixeldq out)"
    by blast
  with h a b c show ?thesis by blast
qed

subsection \<open>Frame averaging\<close>

lemma slice_bound_nat [simp]: "slice_bound n (int k) = min k n"
  by (simp add: slice_bound_def)

lemma slice_bound_add: "slice_bound n (int a + int b) = min (a + b) n"
  using slice_bound_nat [of n "a + b"] by simp

text \<open>The value of one averaged group, lines 216 to 223, for a cube that holds the
  frames \<open>[s, s + nf)\<close>.\<close>

lemma frame_mean_value:
  assumes sh: "shape cube = [G, dny, dnx]" and le: "s + nf \<le> G"
  shows "\<exists>v. (if int nf = 1 then getitem cube (int s)
              else bnd (getslice cube (int s) (int s + int nf)) mean0) = Inr v \<and>
           shape v = [dny, dnx] \<and>
           (\<forall>r c. elem v [r, c] =
              (if nf = 1 then elem cube [s, r, c]
               else fmean (map (\<lambda>f. elem cube [f, r, c]) [s..<s + nf])))"
proof (cases "nf = 1")
  case True
  with le have "s < G" by simp
  from getitem_nat [OF sh this] True show ?thesis by simp
next
  case False
  have b: "min s G = s" "min (s + nf) G = s + nf" using le by simp_all
  have g: "getslice cube (int s) (int s + int nf) =
      Inr \<lparr>shape = [nf, dny, dnx],
           elem = (\<lambda>idx. case idx of [] \<Rightarrow> elem cube [] | k # r \<Rightarrow> elem cube ((s + k) # r))\<rparr>"
    using sh b by (simp add: getslice_def Let_def slice_bound_add)
  have m: "map (\<lambda>k. elem cube [s + k, r, c]) [0..<nf] =
           map (\<lambda>f. elem cube [f, r, c]) [s..<s + nf]" for r c
  proof -
    have "[s..<s + nf] = map (\<lambda>k. k + s) [0..<nf]"
      by (simp add: map_add_upt add.commute)
    then show ?thesis by (simp add: comp_def add.commute)
  qed
  show ?thesis using False g by (simp add: mean0_def m)
qed

lemma average_groups_3d_spec:
  assumes src: "shape src = [G, dny, dnx]"
  shows "shape avg = [n, dny, dnx] \<Longrightarrow> g0 + m \<le> n \<Longrightarrow>
         (\<forall>k < m. s0 + k * (nf + gg) + nf \<le> G) \<Longrightarrow>
         \<exists>avg'. average_groups_3d avg src (int nf) (int gg) (int s0) [g0..<g0 + m] = Inr avg' \<and>
           shape avg' = [n, dny, dnx] \<and>
           (\<forall>g r c. g < n \<and> r < dny \<and> c < dnx \<longrightarrow>
              elem avg' [g, r, c] =
                (if g0 \<le> g \<and> g < g0 + m
                 then (if nf = 1 then elem src [s0 + (g - g0) * (nf + gg), r, c]
                       else fmean (map (\<lambda>f. elem src [f, r, c])
                              [s0 + (g - g0) * (nf + gg)..<s0 + (g - g0) * (nf + gg) + nf]))
                 else elem avg [g, r, c]))"
proof (induction m arbitrary: g0 s0 avg)
  case 0
  then show ?case by auto
next
  case (Suc m)
  from Suc.prems(3) have le: "s0 + nf \<le> G" by force
  from frame_mean_value [OF src le] obtain v where
    v: "(if int nf = 1 then getitem src (int s0)
              else bnd (getslice src (int s0) (int s0 + int nf)) mean0) = Inr v" and
    shv: "shape v = [dny, dnx]" and
    ev: "\<And>r c. elem v [r, c] =
              (if nf = 1 then elem src [s0, r, c]
               else fmean (map (\<lambda>f. elem src [f, r, c]) [s0..<s0 + nf]))"
    by blast
  have g0: "g0 < n" using Suc.prems(2) by simp
  let ?avg1 = "avg\<lparr>elem := (\<lambda>idx. case idx of [] \<Rightarrow> elem avg []
                          | k # r \<Rightarrow> if k = g0 then elem v (bidx [dny, dnx] r)
                                   else elem avg idx)\<rparr>"
  have s: "setitem avg (int g0) v = Inr ?avg1"
    using Suc.prems(1) g0 shv by (rule setitem_nat)
  have sh1: "shape ?avg1 = [n, dny, dnx]" using Suc.prems(1) by simp
  have le1: "Suc g0 + m \<le> n" using Suc.prems(2) by simp
  have pre1: "\<forall>k < m. (s0 + nf + gg) + k * (nf + gg) + nf \<le> G"
  proof (intro allI impI)
    fix k assume "k < m"
    then have "Suc k < Suc m" by simp
    with Suc.prems(3) have "s0 + Suc k * (nf + gg) + nf \<le> G" by blast
    then show "(s0 + nf + gg) + k * (nf + gg) + nf \<le> G" by (simp add: algebra_simps)
  qed
  from Suc.IH [OF sh1 le1 pre1] obtain avg' where
    r: "average_groups_3d ?avg1 src (int nf) (int gg) (int (s0 + nf + gg))
           [Suc g0..<Suc g0 + m] = Inr avg'" and
    sh': "shape avg' = [n, dny, dnx]" and
    e': "\<And>g r c. g < n \<Longrightarrow> r < dny \<Longrightarrow> c < dnx \<Longrightarrow>
              elem avg' [g, r, c] =
                (if Suc g0 \<le> g \<and> g < Suc g0 + m
                 then (if nf = 1 then elem src [(s0 + nf + gg) + (g - Suc g0) * (nf + gg), r, c]
                       else fmean (map (\<lambda>f. elem src [f, r, c])
                              [(s0 + nf + gg) + (g - Suc g0) * (nf + gg)..<
                               (s0 + nf + gg) + (g - Suc g0) * (nf + gg) + nf]))
                 else elem ?avg1 [g, r, c])"
    by blast
  have u: "[g0..<g0 + Suc m] = g0 # [Suc g0..<Suc g0 + m]"
    by (simp add: upt_conv_Cons)
  have st: "int s0 + int nf + int gg = int (s0 + nf + gg)" by simp
  have run: "average_groups_3d avg src (int nf) (int gg) (int s0) [g0..<g0 + Suc m] = Inr avg'"
    unfolding u average_groups_3d.simps Let_def using v s r
    by (simp only: bnd_Inr st)
  have val: "elem avg' [g, r, c] =
                (if g0 \<le> g \<and> g < g0 + Suc m
                 then (if nf = 1 then elem src [s0 + (g - g0) * (nf + gg), r, c]
                       else fmean (map (\<lambda>f. elem src [f, r, c])
                              [s0 + (g - g0) * (nf + gg)..<s0 + (g - g0) * (nf + gg) + nf]))
                 else elem avg [g, r, c])"
    if "g < n" "r < dny" "c < dnx" for g r c
  proof -
    have "in_range [dny, dnx] [r, c]" using that by simp
    then have bi: "bidx [dny, dnx] [r, c] = [r, c]" by (rule bidx_in_range)
    consider "g = g0" | "Suc g0 \<le> g" "g < Suc g0 + m" | "g < g0" | "g0 + Suc m \<le> g"
      by linarith
    then show ?thesis
    proof cases
      case 1
      then show ?thesis using e' [OF that] by (simp add: bi ev)
    next
      case 2
      then have "g - g0 = Suc (g - Suc g0)" by simp
      then have eq: "(s0 + nf + gg) + (g - Suc g0) * (nf + gg) = s0 + (g - g0) * (nf + gg)"
        by simp
      have c1: "Suc g0 \<le> g \<and> g < Suc g0 + m" and c2: "g0 \<le> g \<and> g < g0 + Suc m"
        using 2 by simp_all
      show ?thesis
        unfolding e' [OF that, unfolded eq] by (simp only: c1 c2 if_True simp_thms)
    next
      case 3
      then show ?thesis using e' [OF that] by simp
    next
      case 4
      then show ?thesis using e' [OF that] by simp
    qed
  qed
  show ?case using run sh' val by blast
qed

lemma DarkData_nat:
  "DarkData fill (map int dims) =
     Inr \<lparr>data = full dims fill, exp_nframes = 0, exp_groupgap = 0,
          groupdq = full dims 0, exp_ngroups = 0, save = False, output_name = None\<rparr>"
  by (simp add: DarkData_def comp_def)

lemma average_dark_frames_3d_spec:
  assumes "shape (data dark_data) = [G, dny, dnx]"
    and "\<forall>g < ngroups. g * (nframes + groupgap) + nframes \<le> G"
  shows "\<exists>avg. average_dark_frames_3d fill dark_data (int ngroups) (int nframes) (int groupgap)
                 = Inr avg \<and>
           shape (data avg) = [ngroups, dny, dnx] \<and>
           exp_nframes avg = int nframes \<and> exp_ngroups avg = int ngroups \<and>
           exp_groupgap avg = int groupgap \<and>
           (\<forall>g r c. g < ngroups \<and> r < dny \<and> c < dnx \<longrightarrow>
              elem (data avg) [g, r, c] =
                (let start = g * (nframes + groupgap)
                 in if nframes = 1 then elem (data dark_data) [start, r, c]
                    else fmean (map (\<lambda>f. elem (data dark_data) [f, r, c])
                                  [start..<start + nframes])))"
proof -
  let ?new = "\<lparr>data = full [ngroups, dny, dnx] fill, exp_nframes = 0, exp_groupgap = 0,
          groupdq = full [ngroups, dny, dnx] 0, exp_ngroups = 0, save = False,
          output_name = None\<rparr>"
  have s1: "shape_at (data dark_data) 1 = Inr dny" "shape_at (data dark_data) 2 = Inr dnx"
    using assms(1) by (simp_all add: shape_at_def)
  have dd: "DarkData fill [int ngroups, int dny, int dnx] = Inr ?new"
    using DarkData_nat [of fill "[ngroups, dny, dnx]"] by simp
  have sh0: "shape (data ?new) = [ngroups, dny, dnx]" by (simp add: full_def)
  have pre: "\<forall>k < ngroups. 0 + k * (nframes + groupgap) + nframes \<le> G"
    using assms(2) by simp
  from average_groups_3d_spec [OF assms(1) sh0 _ pre, of 0] obtain d where
    l: "average_groups_3d (data ?new) (data dark_data) (int nframes) (int groupgap) (int 0)
          [0..<0 + ngroups] = Inr d" and
    shd: "shape d = [ngroups, dny, dnx]" and
    ed: "\<And>g r c. g < ngroups \<Longrightarrow> r < dny \<Longrightarrow> c < dnx \<Longrightarrow>
              elem d [g, r, c] =
                (if 0 \<le> g \<and> g < 0 + ngroups
                 then (if nframes = 1
                       then elem (data dark_data) [0 + (g - 0) * (nframes + groupgap), r, c]
                       else fmean (map (\<lambda>f. elem (data dark_data) [f, r, c])
                              [0 + (g - 0) * (nframes + groupgap)..<
                               0 + (g - 0) * (nframes + groupgap) + nframes]))
                 else elem (data ?new) [g, r, c])"
    by auto
  have l': "average_groups_3d (data ?new) (data dark_data) (int nframes) (int groupgap) 0
          [0..<nat (int ngroups)] = Inr d"
    using l by simp
  have run: "average_dark_frames_3d fill dark_data (int ngroups) (int nframes) (int groupgap) =
      Inr (?new\<lparr>data := d, groupdq := groupdq dark_data,
                    exp_nframes := int nframes, exp_ngroups := int ngroups,
                    exp_groupgap := int groupgap\<rparr>)"
    unfolding average_dark_frames_3d_def using s1 dd l' by (simp only: bnd_Inr)
  have "elem d [g, r, c] =
                (let start = g * (nframes + groupgap)
                 in if nframes = 1 then elem (data dark_data) [start, r, c]
                    else fmean (map (\<lambda>f. elem (data dark_data) [f, r, c])
                                  [start..<start + nframes]))"
    if "g < ngroups" "r < dny" "c < dnx" for g r c
    using ed [OF that] that(1) by (simp add: Let_def)
  then show ?thesis using run shd by simp
qed

text \<open>
  Claim C5. For a 3-D dark cube and a target cadence with nonnegative \<open>nframes\<close> and
  \<open>groupgap\<close> such that the source holds the frames \<open>[start, start + nframes)\<close> of every
  target group, where \<open>start = g * (nframes + groupgap)\<close>,
  \<^verbatim>\<open>average_dark_frames_3d\<close> returns a dark with exactly \<open>ngroups\<close> groups; group \<open>g\<close> is
  source frame \<open>start\<close> itself when \<open>nframes = 1\<close> and the elementwise mean of the frames
  \<open>[start, start + nframes)\<close> otherwise; and \<open>exp_nframes\<close>, \<open>exp_ngroups\<close> and
  \<open>exp_groupgap\<close> of the result are the target cadence.
\<close>

theorem average_dark_frames_3d_groups:
  assumes "shape (data dark_data) = [G, dny, dnx]"
    and "\<forall>g < ngroups. g * (nframes + groupgap) + nframes \<le> G"
  shows "\<exists>avg. average_dark_frames_3d fill dark_data (int ngroups) (int nframes) (int groupgap)
                 = Inr avg \<and>
           shape (data avg) = [ngroups, dny, dnx] \<and>
           exp_nframes avg = int nframes \<and> exp_ngroups avg = int ngroups \<and>
           exp_groupgap avg = int groupgap \<and>
           (\<forall>g r c. g < ngroups \<and> r < dny \<and> c < dnx \<longrightarrow>
              elem (data avg) [g, r, c] =
                (let start = g * (nframes + groupgap)
                 in if nframes = 1 then elem (data dark_data) [start, r, c]
                    else fmean (map (\<lambda>f. elem (data dark_data) [f, r, c])
                                  [start..<start + nframes])))"
  using assms by (rule average_dark_frames_3d_spec)

theorem average_dark_frames_3d_groups_witness:
  "shape (data ex_dark3) = [4, 1, 1] \<and>
   (\<exists>avg. average_dark_frames_3d (Fin 0) ex_dark3 (int 2) (int 2) (int 0) = Inr avg \<and>
      shape (data avg) = [2, 1, 1] \<and>
      exp_nframes avg = 2 \<and> exp_ngroups avg = 2 \<and> exp_groupgap avg = 0 \<and>
      elem (data avg) [1, 0, 0] = Fin (5 / 2))"
proof -
  have a: "shape (data ex_dark3) = [4, 1, 1]" by (simp add: ex_dark3_def)
  have b: "\<forall>g < (2::nat). g * (2 + 0) + 2 \<le> (4::nat)" by auto
  from average_dark_frames_3d_groups [OF a b, of "Fin 0"] obtain avg where
    r: "average_dark_frames_3d (Fin 0) ex_dark3 (int 2) (int 2) (int 0) = Inr avg" and
    s: "shape (data avg) = [2, 1, 1]" and
    c: "exp_nframes avg = int 2" "exp_ngroups avg = int 2" "exp_groupgap avg = int 0" and
    e: "\<forall>g r c. g < 2 \<and> r < 1 \<and> c < 1 \<longrightarrow>
              elem (data avg) [g, r, c] =
                (let start = g * (2 + 0)
                 in if (2::nat) = 1 then elem (data ex_dark3) [start, r, c]
                    else fmean (map (\<lambda>f. elem (data ex_dark3) [f, r, c])
                                  [start..<start + 2]))"
    by blast
  from e have "elem (data avg) [1, 0, 0] =
      fmean (map (\<lambda>f. elem (data ex_dark3) [f, 0, 0]) [2..<4])"
    by (elim allE [of _ "1::nat"] allE [of _ "0::nat"]) (simp add: Let_def)
  moreover have "[2..<4] = [2, 3::nat]" by (simp add: upt_rec)
  ultimately have "elem (data avg) [1, 0, 0] = Fin (5 / 2)"
    by (simp add: ex_dark3_def fmean_def fsum_def)
  with a r s c show ?thesis by auto
qed







end
